theory Spec2Isabelle
  imports Main "HOL-Library.Word"
begin

unbundle bit_operations_syntax

section \<open>Machine types and the register window\<close>

type_synonym u32 = "32 word"
type_synonym u64 = "64 word"

text \<open>
  Everything the driver does to the outside world is kept in order of occurrence:
  register writes and reads of the memory-mapped window, the two kinds of memory
  barrier, sleeps, and the calls into the link-boot protocol (\<open>plx_lbp.c\<close>).
\<close>

datatype hw_event =
    Write32 u32 u32   \<comment> \<open>\<open>plx_mmio_write(mmio, val, offset)\<close>: value, then offset\<close>
  | Read32 u32        \<comment> \<open>\<open>plx_mmio_read(mmio, offset)\<close>\<close>
  | Wmb               \<comment> \<open>\<open>wmb()\<close>\<close>
  | Mb                \<comment> \<open>\<open>mb()\<close>\<close>
  | Wait u32          \<comment> \<open>\<open>msleep(ms)\<close> or the timed wait for a completion\<close>
  | LbpResetStart int int
  | LbpResetStop int int

text \<open>
  The register window: a store from offsets to 32-bit values in which a read returns the
  value last written to the same offset, together with the events issued so far.
\<close>

record plx_mmio =
  regs :: "u32 \<Rightarrow> u32"
  events :: "hw_event list"

definition plx_mmio_write :: "plx_mmio \<Rightarrow> u32 \<Rightarrow> u32 \<Rightarrow> plx_mmio" where
  "plx_mmio_write m val offset =
     m\<lparr>regs := (regs m)(offset := val), events := events m @ [Write32 val offset]\<rparr>"

definition plx_mmio_read :: "plx_mmio \<Rightarrow> u32 \<Rightarrow> u32 \<times> plx_mmio" where
  "plx_mmio_read m offset = (regs m offset, m\<lparr>events := events m @ [Read32 offset]\<rparr>)"

definition barrier :: "hw_event \<Rightarrow> plx_mmio \<Rightarrow> plx_mmio" where
  "barrier e m = m\<lparr>events := events m @ [e]\<rparr>"

text \<open>
  The constants of \<open>plx_hw.h\<close>, which is not among the sources: they are parameters of
  every definition that uses them.
\<close>

record plx_consts =
  PLX_A_LUT_MAX_ARRAY :: u32
  PLX_A_LUT_ARRAY_OFFSET :: u32
  PLX_A_LUT_PERMISSION_SUBARRAY_OFFSET :: u32
  PLX_A_LUT_HIGHER_RE_MAP_SUBARRAY_OFFSET :: u32
  PLX_A_LUT_LOWER_RE_MAP_SUBARRAY_OFFSET :: u32
  PLX_A_LUT_PERMISSION_READ_ENABLE :: u32
  PLX_A_LUT_PERMISSION_WRITE_ENABLE :: u32
  PLX_SPAD0 :: u32
  PLX_DPLO_SPAD :: u32
  PLX_DPHI_SPAD :: u32
  VCA_VV :: u32
  VCA_MV :: u32
  PLX_VV_CPU_NUMS :: u32
  PLX_MV_CPU_NUMS :: u32
  PLX_VV_CPU0_RESET_BIT :: u32
  PLX_VV_CPU1_RESET_BIT :: u32
  PLX_VV_CPU2_RESET_BIT :: u32
  PLX_MV_CPU0_RESET_BIT :: u32
  PLX_MV_CPU1_RESET_BIT :: u32
  PLX_MV_CPU2_RESET_BIT :: u32
  RESET_GRACE_PERIOD_JIFFIES :: u64  \<comment> \<open>\<open>msecs_to_jiffies(RESET_GRACE_PERIOD_MS)\<close>\<close>

text \<open>
  One assignment of the constants, on which the definitions are evaluated. The header's
  own values are not known here; no general theorem depends on this choice.
\<close>

definition sample_consts :: plx_consts where
  "sample_consts = \<lparr>
     PLX_A_LUT_MAX_ARRAY = 128,
     PLX_A_LUT_ARRAY_OFFSET = 0x1000,
     PLX_A_LUT_PERMISSION_SUBARRAY_OFFSET = 0x800,
     PLX_A_LUT_HIGHER_RE_MAP_SUBARRAY_OFFSET = 0x400,
     PLX_A_LUT_LOWER_RE_MAP_SUBARRAY_OFFSET = 0,
     PLX_A_LUT_PERMISSION_READ_ENABLE = 1,
     PLX_A_LUT_PERMISSION_WRITE_ENABLE = 2,
     PLX_SPAD0 = 0xC6C,
     PLX_DPLO_SPAD = 14,
     PLX_DPHI_SPAD = 15,
     VCA_VV = 1,
     VCA_MV = 2,
     PLX_VV_CPU_NUMS = 3,
     PLX_MV_CPU_NUMS = 3,
     PLX_VV_CPU0_RESET_BIT = 0x10,
     PLX_VV_CPU1_RESET_BIT = 0x20,
     PLX_VV_CPU2_RESET_BIT = 0x40,
     PLX_MV_CPU0_RESET_BIT = 0x100,
     PLX_MV_CPU1_RESET_BIT = 0x200,
     PLX_MV_CPU2_RESET_BIT = 0x400,
     RESET_GRACE_PERIOD_JIFFIES = 1000 \<rparr>"

section \<open>Offsets of the A-LUT entries\<close>

text \<open>
  \<open>plx_get_a_lut_entry_offset\<close>: \<open>sizeof(u32)\<close> is 4; all arithmetic is that of
  \<open>unsigned int\<close>. The C remainder by zero is undefined; the theorems below assume a
  positive \<open>PLX_A_LUT_MAX_ARRAY\<close>.
\<close>

definition plx_get_a_lut_entry_offset :: "plx_consts \<Rightarrow> u32 \<Rightarrow> u32" where
  "plx_get_a_lut_entry_offset C idx =
     (let array_offset = (if idx \<ge> PLX_A_LUT_MAX_ARRAY C then PLX_A_LUT_ARRAY_OFFSET C else 0)
      in array_offset + (idx mod PLX_A_LUT_MAX_ARRAY C) * 4)"

section \<open>The segment manager\<close>

text \<open>
  \<open>plx_alm_add_entry\<close>, \<open>plx_alm_del_entry\<close> and \<open>plx_alm_reset\<close> are called by
  \<open>plx_hw.c\<close> and defined in \<open>plx_alm.c\<close>, which is not among the sources, as is the
  declaration of \<open>struct plx_alm\<close>. Everything in this section follows the
  specification (its sections 3, 4.1 and 8) instead.
\<close>

text \<open>
  Modelled from the spec: the allocation bookkeeping of \<open>struct plx_alm\<close>, as the list
  of allocated runs. A run is a range of contiguous segments
  \<open>run_start, ..., run_start + run_count - 1\<close> that maps the masked address \<open>run_addr\<close>
  and has \<open>run_refs\<close> outstanding mappings.
\<close>

record alm_run =
  run_start :: nat
  run_count :: nat
  run_addr :: u64
  run_refs :: nat

text \<open>
  Modelled from the spec: \<open>struct plx_alm\<close>. The source prints \<open>segment_size\<close> with
  \<open>%llx\<close> and \<open>segments_num\<close> with \<open>%x\<close>: a 64-bit and a 32-bit field.
\<close>

record plx_alm =
  segment_size :: u64
  segments_num :: u32
  alm_runs :: "alm_run list"

text \<open>
  Modelled from the spec: the results of \<open>plx_alm_add_entry\<close>. The caller tests for 0,
  for \<open>-EEXIST\<close>, and takes any other value for a failure.
\<close>

datatype alm_err = ALM_OK | ALM_EEXIST | ALM_NOSPACE

text \<open>
  Modelled from the spec: a segment is allocated when a run contains it, and free
  otherwise.
\<close>

definition run_contains :: "nat \<Rightarrow> alm_run \<Rightarrow> bool" where
  "run_contains i r = (run_start r \<le> i \<and> i < run_start r + run_count r)"

definition segment_used :: "alm_run list \<Rightarrow> nat \<Rightarrow> bool" where
  "segment_used rs i = list_ex (run_contains i) rs"

definition range_free :: "alm_run list \<Rightarrow> nat \<Rightarrow> nat \<Rightarrow> bool" where
  "range_free rs s n = list_all (\<lambda>i. \<not> segment_used rs i) [s..<s + n]"

text \<open>
  Modelled from the spec: the number of contiguous segments that the range
  \<open>[addr, addr + size)\<close> spans once \<open>addr\<close> is masked down to a segment boundary.
\<close>

definition segments_needed :: "plx_alm \<Rightarrow> u64 \<Rightarrow> u64 \<Rightarrow> nat" where
  "segments_needed alm addr sz =
     (let addr_masked = addr AND NOT (segment_size alm - 1);
          span = unat (addr - addr_masked) + unat sz
      in (span + unat (segment_size alm) - 1) div unat (segment_size alm))"

text \<open>
  Modelled from the spec: an allocated run covers a request when it maps the same masked
  address and is long enough for the request (in section 8, the run of segments 1 and 2
  at 0x1000 serves the later request for 0x1050 of length 0x10).
\<close>

definition run_covers :: "u64 \<Rightarrow> nat \<Rightarrow> alm_run \<Rightarrow> bool" where
  "run_covers addr_masked needed r = (run_addr r = addr_masked \<and> needed \<le> run_count r)"

text \<open>Modelled from the spec: first fit over index order.\<close>

definition first_fit :: "plx_alm \<Rightarrow> nat \<Rightarrow> nat option" where
  "first_fit alm n =
     find (\<lambda>s. s + n \<le> unat (segments_num alm) \<and> range_free (alm_runs alm) s n)
       [0..<unat (segments_num alm)]"

text \<open>
  Modelled from the spec: taking a reference on the first run that satisfies \<open>P\<close>, and
  giving one back; the run whose last reference goes away leaves the list.
\<close>

fun take_ref :: "(alm_run \<Rightarrow> bool) \<Rightarrow> alm_run list \<Rightarrow> alm_run list" where
  "take_ref P [] = []"
| "take_ref P (r # rs) =
     (if P r then r\<lparr>run_refs := run_refs r + 1\<rparr> # rs else r # take_ref P rs)"

fun drop_ref :: "(alm_run \<Rightarrow> bool) \<Rightarrow> alm_run list \<Rightarrow> alm_run list" where
  "drop_ref P [] = []"
| "drop_ref P (r # rs) =
     (if P r then (if run_refs r \<le> 1 then rs else r\<lparr>run_refs := run_refs r - 1\<rparr> # rs)
      else r # drop_ref P rs)"

text \<open>
  Modelled from the spec: \<open>plx_alm_add_entry\<close> of \<open>plx_alm.c\<close>. It returns the error
  code, the manager, and the out-parameters \<open>segment_id\<close> and \<open>segments_num\<close> (which the
  caller does not read when there is no space).
\<close>

definition plx_alm_add_entry :: "plx_alm \<Rightarrow> u64 \<Rightarrow> u64 \<Rightarrow> alm_err \<times> plx_alm \<times> u32 \<times> u32" where
  "plx_alm_add_entry alm addr sz =
     (let addr_masked = addr AND NOT (segment_size alm - 1);
          needed = segments_needed alm addr sz
      in case find (run_covers addr_masked needed) (alm_runs alm) of
           Some r \<Rightarrow>
             (ALM_EEXIST,
              alm\<lparr>alm_runs := take_ref (run_covers addr_masked needed) (alm_runs alm)\<rparr>,
              of_nat (run_start r), of_nat (run_count r))
         | None \<Rightarrow>
             (case first_fit alm needed of
                None \<Rightarrow> (ALM_NOSPACE, alm, 0, 0)
              | Some s \<Rightarrow>
                  (ALM_OK,
                   alm\<lparr>alm_runs :=
                     \<lparr>run_start = s, run_count = needed, run_addr = addr_masked, run_refs = 1\<rparr>
                       # alm_runs alm\<rparr>,
                   of_nat s, of_nat needed)))"

text \<open>
  Modelled from the spec: \<open>plx_alm_del_entry\<close> of \<open>plx_alm.c\<close>. It returns the manager
  and the out-parameters \<open>start_segment\<close> and \<open>segments_num\<close>; the latter is 0 unless the
  last reference went away.
\<close>

definition plx_alm_del_entry :: "plx_alm \<Rightarrow> u32 \<Rightarrow> plx_alm \<times> u32 \<times> u32" where
  "plx_alm_del_entry alm segment_id =
     (case find (run_contains (unat segment_id)) (alm_runs alm) of
        None \<Rightarrow> (alm, 0, 0)
      | Some r \<Rightarrow>
          (alm\<lparr>alm_runs := drop_ref (run_contains (unat segment_id)) (alm_runs alm)\<rparr>,
           if run_refs r \<le> 1 then of_nat (run_start r) else 0,
           if run_refs r \<le> 1 then of_nat (run_count r) else 0))"

text \<open>Modelled from the spec: \<open>plx_alm_reset\<close> of \<open>plx_alm.c\<close> forgets every allocation.\<close>

definition plx_alm_reset :: "plx_alm \<Rightarrow> plx_alm" where
  "plx_alm_reset alm = alm\<lparr>alm_runs := []\<rparr>"

text \<open>
  Modelled from the spec: the invariant of the manager. There is a segment size, the
  table fits the 64-bit address space (\<open>segments_num * segment_size\<close> is at most the
  length of the aperture), and the runs are non-empty, referenced, inside the table and
  pairwise disjoint (a segment is free or allocated to one run).
\<close>

definition runs_apart :: "alm_run \<Rightarrow> alm_run \<Rightarrow> bool" where
  "runs_apart r q =
     (run_start r + run_count r \<le> run_start q \<or> run_start q + run_count q \<le> run_start r)"

fun runs_disjoint :: "alm_run list \<Rightarrow> bool" where
  "runs_disjoint [] = True"
| "runs_disjoint (r # rs) = (list_all (runs_apart r) rs \<and> runs_disjoint rs)"

definition run_ok :: "plx_alm \<Rightarrow> alm_run \<Rightarrow> bool" where
  "run_ok alm r =
     (0 < run_count r \<and> 0 < run_refs r \<and> run_start r + run_count r \<le> unat (segments_num alm))"

definition alm_wf :: "plx_alm \<Rightarrow> bool" where
  "alm_wf alm =
     (0 < unat (segment_size alm)
      \<and> unat (segments_num alm) * unat (segment_size alm) < 2 ^ 64
      \<and> list_all (run_ok alm) (alm_runs alm)
      \<and> runs_disjoint (alm_runs alm))"

section \<open>The device and the translation facade\<close>

record plx_device =
  mmio :: plx_mmio
  reg_base :: u32
  a_lut_array_base :: u32
  a_lut_manager :: plx_alm
  card_id :: int
  card_type :: u32

datatype errno = ENOMEM

text \<open>
  A C loop \<open>for (i = first; i < bound; i++)\<close> over unsigned 32-bit values. The drivers
  declare \<open>i\<close> an \<open>int\<close> and compare it with unsigned values, which compares unsigned.
\<close>

function for_u32 :: "u32 \<Rightarrow> u32 \<Rightarrow> (u32 \<Rightarrow> 's \<Rightarrow> 's) \<Rightarrow> 's \<Rightarrow> 's" where
  "for_u32 i bound body s = (if i < bound then for_u32 (i + 1) bound body (body i s) else s)"
  by pat_completeness auto
termination
proof (relation "measure (\<lambda>(i, bound, body, s). unat bound - unat i)")
  show "wf (measure (\<lambda>(i, bound, body, s). unat bound - unat i))"
    by simp
next
  fix i bound :: u32 and body :: "u32 \<Rightarrow> 's \<Rightarrow> 's" and s :: 's
  assume lt: "i < bound"
  then have "unat i < unat bound"
    by (simp add: word_less_nat_alt)
  moreover have "unat bound < 2 ^ 32"
    using unsigned_less [of bound] by simp
  ultimately have "unat (i + 1) = unat i + 1"
    by (simp add: unat_word_ariths)
  with \<open>unat i < unat bound\<close>
  show "((i + 1, bound, body, body i s), (i, bound, body, s))
      \<in> measure (\<lambda>(i, bound, body, s). unat bound - unat i)"
    by simp
qed

declare for_u32.simps [simp del]

text \<open>
  The body of the loop of \<open>plx_add_a_lut_entry\<close>. The loop carries the register window,
  \<open>last_permission_reg\<close> and \<open>addr_masked\<close>.
\<close>

definition a_lut_program_entry ::
  "plx_consts \<Rightarrow> plx_device \<Rightarrow> u32 \<Rightarrow> plx_mmio \<times> u32 \<times> u64 \<Rightarrow> plx_mmio \<times> u32 \<times> u64" where
  "a_lut_program_entry C xdev i st =
     (case st of (m, last_permission_reg, addr_masked) \<Rightarrow>
        let entry_offset = a_lut_array_base xdev + plx_get_a_lut_entry_offset C i;
            lower_re_map_offset = entry_offset + PLX_A_LUT_LOWER_RE_MAP_SUBARRAY_OFFSET C;
            higher_re_map_offset = entry_offset + PLX_A_LUT_HIGHER_RE_MAP_SUBARRAY_OFFSET C;
            permission_offset = entry_offset + PLX_A_LUT_PERMISSION_SUBARRAY_OFFSET C;
            m1 = plx_mmio_write m (ucast (drop_bit 32 addr_masked)) higher_re_map_offset;
            m2 = plx_mmio_write m1 (ucast addr_masked) lower_re_map_offset;
            m3 = barrier Wmb m2;
            m4 = plx_mmio_write m3
                   (PLX_A_LUT_PERMISSION_READ_ENABLE C OR PLX_A_LUT_PERMISSION_WRITE_ENABLE C)
                   permission_offset
        in (m4, permission_offset, addr_masked + segment_size (a_lut_manager xdev)))"

text \<open>
  \<open>plx_add_a_lut_entry\<close>: the device afterwards, and \<open>-ENOMEM\<close> or the value stored in
  \<open>*addr_out\<close>. \<open>size_t\<close> and \<open>dma_addr_t\<close> are 64 bits wide.
\<close>

definition plx_add_a_lut_entry ::
  "plx_consts \<Rightarrow> plx_device \<Rightarrow> u64 \<Rightarrow> u64 \<Rightarrow> plx_device \<times> (errno + u64)" where
  "plx_add_a_lut_entry C xdev addr sz =
     (let translation_mask = segment_size (a_lut_manager xdev) - 1;
          addr_masked = addr AND NOT translation_mask
      in case plx_alm_add_entry (a_lut_manager xdev) addr sz of
           (err, alm', segment_id, segments_num') \<Rightarrow>
             let xdev1 = xdev\<lparr>a_lut_manager := alm'\<rparr>
             in if err \<noteq> ALM_OK \<and> err \<noteq> ALM_EEXIST then (xdev1, Inl ENOMEM)
                else
                  let xdev2 =
                        (if err = ALM_OK then
                           (case for_u32 segment_id (segment_id + segments_num')
                                   (a_lut_program_entry C xdev1) (mmio xdev1, 0, addr_masked) of
                              (m, last_permission_reg, _) \<Rightarrow>
                                let m1 = barrier Mb m;
                                    m2 = (if last_permission_reg \<noteq> 0
                                          then snd (plx_mmio_read m1 last_permission_reg) else m1)
                                in xdev1\<lparr>mmio := m2\<rparr>)
                         else xdev1)
                  in (xdev2,
                      Inr (ucast segment_id * segment_size (a_lut_manager xdev2)
                             + (addr AND translation_mask))))"

text \<open>
  What programming one entry issues, in order: the high half of the masked address, its
  low half, a write barrier, and the permission with read and write enabled.
\<close>

definition programmed_entry_events :: "plx_consts \<Rightarrow> u32 \<Rightarrow> u32 \<Rightarrow> u64 \<Rightarrow> hw_event list" where
  "programmed_entry_events C array_base i addr_masked =
     (let entry_offset = array_base + plx_get_a_lut_entry_offset C i
      in [Write32 (ucast (drop_bit 32 addr_masked))
            (entry_offset + PLX_A_LUT_HIGHER_RE_MAP_SUBARRAY_OFFSET C),
          Write32 (ucast addr_masked)
            (entry_offset + PLX_A_LUT_LOWER_RE_MAP_SUBARRAY_OFFSET C),
          Wmb,
          Write32 (PLX_A_LUT_PERMISSION_READ_ENABLE C OR PLX_A_LUT_PERMISSION_WRITE_ENABLE C)
            (entry_offset + PLX_A_LUT_PERMISSION_SUBARRAY_OFFSET C)])"

text \<open>The body of the loop of \<open>plx_del_a_lut_entry\<close>.\<close>

definition a_lut_clear_permission :: "plx_consts \<Rightarrow> plx_device \<Rightarrow> u32 \<Rightarrow> plx_mmio \<Rightarrow> plx_mmio" where
  "a_lut_clear_permission C xdev i m =
     (let permission_offset =
            plx_get_a_lut_entry_offset C i + PLX_A_LUT_PERMISSION_SUBARRAY_OFFSET C
      in plx_mmio_write m 0 (a_lut_array_base xdev + permission_offset))"

text \<open>
  \<open>plx_del_a_lut_entry\<close>. Its first statement divides \<open>addr\<close> by the segment size,
  before the range check: with a segment size of 0 the division faults and the function
  does not return, which is the result \<open>None\<close>. Otherwise the result is the device
  afterwards.
\<close>

definition plx_del_a_lut_entry :: "plx_consts \<Rightarrow> plx_device \<Rightarrow> u64 \<Rightarrow> plx_device option" where
  "plx_del_a_lut_entry C xdev addr =
     (if segment_size (a_lut_manager xdev) = 0 then None
      else
        let segment_id = (ucast (addr div segment_size (a_lut_manager xdev)) :: u32)
        in if addr \<ge> ucast (segments_num (a_lut_manager xdev))
                        * segment_size (a_lut_manager xdev)
           then Some xdev
           else
             (case plx_alm_del_entry (a_lut_manager xdev) segment_id of
                (alm', start_segment, segments_num') \<Rightarrow>
                  let xdev1 = xdev\<lparr>a_lut_manager := alm'\<rparr>
                  in if segments_num' \<noteq> 0
                     then Some (xdev1\<lparr>mmio :=
                            for_u32 start_segment (start_segment + segments_num')
                              (a_lut_clear_permission C xdev1) (mmio xdev1)\<rparr>)
                     else Some xdev1))"

text \<open>\<open>plx_a_lut_clear\<close>, called with the base of the array when the A-LUT is enabled.\<close>

definition a_lut_clear_entry :: "plx_consts \<Rightarrow> u32 \<Rightarrow> u32 \<Rightarrow> plx_mmio \<Rightarrow> plx_mmio" where
  "a_lut_clear_entry C offset i m =
     (let entry_offset = plx_get_a_lut_entry_offset C i + offset;
          m1 = plx_mmio_write m 0 (entry_offset + PLX_A_LUT_PERMISSION_SUBARRAY_OFFSET C);
          m2 = plx_mmio_write m1 0 (entry_offset + PLX_A_LUT_HIGHER_RE_MAP_SUBARRAY_OFFSET C)
      in plx_mmio_write m2 0 (entry_offset + PLX_A_LUT_LOWER_RE_MAP_SUBARRAY_OFFSET C))"

definition plx_a_lut_clear :: "plx_consts \<Rightarrow> plx_device \<Rightarrow> u32 \<Rightarrow> plx_device" where
  "plx_a_lut_clear C xdev offset =
     (let xdev1 = xdev\<lparr>a_lut_manager := plx_alm_reset (a_lut_manager xdev)\<rparr>
      in xdev1\<lparr>mmio := for_u32 0 (segments_num (a_lut_manager xdev1))
                            (a_lut_clear_entry C offset) (mmio xdev1)\<rparr>)"

section \<open>Scratchpad registers and the boot-parameter address\<close>

definition plx_write_spad :: "plx_consts \<Rightarrow> plx_device \<Rightarrow> u32 \<Rightarrow> u32 \<Rightarrow> plx_device" where
  "plx_write_spad C xdev idx val =
     xdev\<lparr>mmio := plx_mmio_write (mmio xdev) val (reg_base xdev + PLX_SPAD0 C + idx * 4)\<rparr>"

definition plx_read_spad :: "plx_consts \<Rightarrow> plx_device \<Rightarrow> u32 \<Rightarrow> u32 \<times> plx_device" where
  "plx_read_spad C xdev idx =
     (case plx_mmio_read (mmio xdev) (reg_base xdev + PLX_SPAD0 C + idx * 4) of
        (val, m) \<Rightarrow> (val, xdev\<lparr>mmio := m\<rparr>))"

text \<open>
  \<open>plx_set_dp_addr\<close>: passing the \<open>u64\<close> to the \<open>u32\<close> parameter keeps its low 32 bits.
\<close>

definition plx_set_dp_addr :: "plx_consts \<Rightarrow> plx_device \<Rightarrow> u64 \<Rightarrow> plx_device" where
  "plx_set_dp_addr C xdev dp_addr =
     (let xdev1 = plx_write_spad C xdev (PLX_DPLO_SPAD C) (ucast dp_addr)
      in plx_write_spad C xdev1 (PLX_DPHI_SPAD C) (ucast (drop_bit 32 dp_addr)))"

definition plx_get_dp_addr :: "plx_consts \<Rightarrow> plx_device \<Rightarrow> u64 \<times> plx_device" where
  "plx_get_dp_addr C xdev =
     (case plx_read_spad C xdev (PLX_DPLO_SPAD C) of
        (lo32, xdev1) \<Rightarrow>
          (case plx_read_spad C xdev1 (PLX_DPHI_SPAD C) of
             (hi32, xdev2) \<Rightarrow>
               let lo = (ucast lo32 :: u64); hi = (ucast hi32 :: u64)
               in (lo OR push_bit 32 hi, xdev2)))"

section \<open>Card reset\<close>

definition GPIO_REG :: u32 where
  "GPIO_REG = 0x624"

definition MARGIN_TIME :: u32 where
  "MARGIN_TIME = 8"

definition RESET_PULSE_TIME :: u32 where
  "RESET_PULSE_TIME = 16 + MARGIN_TIME"

definition plx_reset_bits :: "plx_consts \<Rightarrow> u32 list list" where
  "plx_reset_bits C =
     [[PLX_VV_CPU0_RESET_BIT C, PLX_VV_CPU1_RESET_BIT C, PLX_VV_CPU2_RESET_BIT C],
      [PLX_MV_CPU0_RESET_BIT C, PLX_MV_CPU1_RESET_BIT C, PLX_MV_CPU2_RESET_BIT C]]"

definition plx_get_cpu_num :: "plx_consts \<Rightarrow> plx_device \<Rightarrow> u32" where
  "plx_get_cpu_num C xdev =
     (if card_type xdev AND VCA_VV C \<noteq> 0 then PLX_VV_CPU_NUMS C
      else if card_type xdev AND VCA_MV C \<noteq> 0 then PLX_MV_CPU_NUMS C
      else 0)"

text \<open>
  The kernel's comparisons of 64-bit jiffies (\<open>linux/jiffies.h\<close>): the difference is read
  as a signed number, so that they survive the wrap-around of the counter.
\<close>

definition time_after_eq64 :: "u64 \<Rightarrow> u64 \<Rightarrow> bool" where
  "time_after_eq64 a b = (0 \<le> sint (a - b))"

definition time_before64 :: "u64 \<Rightarrow> u64 \<Rightarrow> bool" where
  "time_before64 a b = (sint (a - b) < 0)"

text \<open>
  \<open>signal_bit\<close> as \<open>plx_card_reset\<close> calls it, with \<open>wait_start\<close> and
  \<open>signal_release_ts\<close> both \<open>NULL\<close>: the bit is driven low, held for \<open>ms\<close> milliseconds
  (or until the completion fires), and driven high again.
\<close>

definition signal_bit :: "plx_mmio \<Rightarrow> u32 \<Rightarrow> u32 \<Rightarrow> u32 \<Rightarrow> plx_mmio" where
  "signal_bit m bit' offset ms =
     (case plx_mmio_read m offset of
        (data, m1) \<Rightarrow>
          let m2 = plx_mmio_write m1 (data AND NOT bit') offset;
              m3 = barrier (Wait ms) m2
          in (case plx_mmio_read m3 offset of
                (data', m4) \<Rightarrow> plx_mmio_write m4 (data' OR bit') offset))"

text \<open>
  \<open>plx_contexts\<close> is the global table of device contexts by card and CPU. Of the node it
  points to, \<open>plx_card_reset\<close> uses \<open>reset_ts\<close> only, so the table holds that field;
  \<open>None\<close> is the null pointer.
\<close>

type_synonym plx_contexts = "int \<times> int \<Rightarrow> u64 option"

text \<open>
  \<open>plx_card_reset\<close>. The three values \<open>now0\<close>, \<open>now1\<close>, \<open>now2\<close> are what
  \<open>get_jiffies_64()\<close> returns at its first, second and third call. The table of reset
  bits has three entries per card type; \<open>cpu_id\<close> is below \<open>plx_get_cpu_num\<close>.
\<close>

definition plx_card_reset ::
  "plx_consts \<Rightarrow> plx_contexts \<Rightarrow> plx_device \<Rightarrow> int \<Rightarrow> u64 \<Rightarrow> u64 \<Rightarrow> u64
     \<Rightarrow> plx_contexts \<times> plx_device" where
  "plx_card_reset C ctx xdev cpu_id now0 now1 now2 =
     (if cpu_id < 0 \<or> cpu_id \<ge> uint (plx_get_cpu_num C xdev) then (ctx, xdev)
      else case ctx (card_id xdev, cpu_id) of
        None \<Rightarrow> (ctx, xdev)
      | Some reset_ts \<Rightarrow>
          if time_after_eq64 now0 reset_ts
             \<and> time_before64 now0 (reset_ts + RESET_GRACE_PERIOD_JIFFIES C)
          then (ctx, xdev)
          else
            let ctx1 = ctx((card_id xdev, cpu_id) \<mapsto> now1);
                pulse = (\<lambda>card_bits.
                  let bit' = card_bits ! nat cpu_id;
                      m1 = barrier (LbpResetStart (card_id xdev) cpu_id) (mmio xdev);
                      m2 = signal_bit m1 bit' GPIO_REG RESET_PULSE_TIME;
                      ctx2 = ctx1((card_id xdev, cpu_id) \<mapsto> now2);
                      m3 = barrier (Wait 100) m2;
                      m4 = barrier (LbpResetStop (card_id xdev) cpu_id) m3
                  in (ctx2, xdev\<lparr>mmio := m4\<rparr>))
            in if card_type xdev AND VCA_VV C \<noteq> 0 then pulse (plx_reset_bits C ! 0)
               else if card_type xdev AND VCA_MV C \<noteq> 0 then pulse (plx_reset_bits C ! 1)
               else (ctx1, xdev))"

section \<open>A sample device\<close>

text \<open>The manager of the worked example: four segments of 0x1000 bytes, none allocated.\<close>

definition sample_alm :: plx_alm where
  "sample_alm = \<lparr>segment_size = 0x1000, segments_num = 4, alm_runs = []\<rparr>"

definition sample_dev :: plx_device where
  "sample_dev = \<lparr>
     mmio = \<lparr>regs = (\<lambda>_. 0), events = []\<rparr>,
     reg_base = 0x3E000,
     a_lut_array_base = 0x38000,
     a_lut_manager = sample_alm,
     card_id = 0,
     card_type = 2 \<rparr>"

text \<open>
  The same table with two allocations: segments 1 and 2 map 0x1000 for two users, segment
  0 maps 0x7000 for one. Every register holds 7.
\<close>

definition sample_alm_busy :: plx_alm where
  "sample_alm_busy = \<lparr>segment_size = 0x1000, segments_num = 4,
     alm_runs = [\<lparr>run_start = 1, run_count = 2, run_addr = 0x1000, run_refs = 2\<rparr>,
                 \<lparr>run_start = 0, run_count = 1, run_addr = 0x7000, run_refs = 1\<rparr>]\<rparr>"

definition sample_dev_busy :: plx_device where
  "sample_dev_busy = \<lparr>
     mmio = \<lparr>regs = (\<lambda>_. 7), events = []\<rparr>,
     reg_base = 0x3E000,
     a_lut_array_base = 0x38000,
     a_lut_manager = sample_alm_busy,
     card_id = 0,
     card_type = 2 \<rparr>"

section \<open>Evaluation\<close>

lemmas alm_defs = plx_alm_add_entry_def plx_alm_del_entry_def segments_needed_def first_fit_def
  range_free_def segment_used_def run_contains_def run_covers_def

lemmas facade_defs = plx_add_a_lut_entry_def plx_del_a_lut_entry_def a_lut_program_entry_def
  a_lut_clear_permission_def plx_get_a_lut_entry_offset_def plx_mmio_write_def plx_mmio_read_def
  barrier_def

lemmas sample_defs = sample_dev_def sample_alm_def sample_consts_def sample_dev_busy_def
  sample_alm_busy_def

section \<open>The layout of the table\<close>

lemma entry_offset_unat:
  assumes M: "0 < PLX_A_LUT_MAX_ARRAY C"
    and fit: "unat (PLX_A_LUT_ARRAY_OFFSET C) + 4 * unat (PLX_A_LUT_MAX_ARRAY C) \<le> 2 ^ 32"
  shows "unat (plx_get_a_lut_entry_offset C idx) =
     (if unat (PLX_A_LUT_MAX_ARRAY C) \<le> unat idx then unat (PLX_A_LUT_ARRAY_OFFSET C) else 0)
       + (unat idx mod unat (PLX_A_LUT_MAX_ARRAY C)) * 4"
proof -
  let ?M = "unat (PLX_A_LUT_MAX_ARRAY C)"
  have M0: "0 < ?M" using M by (simp add: word_less_nat_alt)
  have r: "unat idx mod ?M < ?M" using M0 by simp
  have m4: "unat ((idx mod PLX_A_LUT_MAX_ARRAY C) * 4) = (unat idx mod ?M) * 4"
    using r fit by (simp add: unat_word_ariths unat_mod)
  show ?thesis
    unfolding plx_get_a_lut_entry_offset_def Let_def
    using r fit m4 by (simp add: unat_word_ariths word_le_nat_alt)
qed

text \<open>
  C3. \<open>plx_get_a_lut_entry_offset\<close> lays the table out in two arrays: an index below
  \<open>PLX_A_LUT_MAX_ARRAY\<close> has the offset \<open>idx * 4\<close> in the first array, an index at or
  above it has the offset \<open>PLX_A_LUT_ARRAY_OFFSET + (idx mod PLX_A_LUT_MAX_ARRAY) * 4\<close> in
  the second, and the function is injective on the indices below \<open>n\<close>. The constants are
  those of a table of two arrays: the per-array maximum is positive, \<open>n\<close> entries fit two
  arrays, the second array starts at or after the end of the first, and it ends inside
  the 32-bit offsets.
\<close>

theorem entry_offset_two_arrays:
  assumes M: "0 < PLX_A_LUT_MAX_ARRAY C"
    and two: "unat n \<le> 2 * unat (PLX_A_LUT_MAX_ARRAY C)"
    and apart: "4 * unat (PLX_A_LUT_MAX_ARRAY C) \<le> unat (PLX_A_LUT_ARRAY_OFFSET C)"
    and fit: "unat (PLX_A_LUT_ARRAY_OFFSET C) + 4 * unat (PLX_A_LUT_MAX_ARRAY C) \<le> 2 ^ 32"
  shows "inj_on (plx_get_a_lut_entry_offset C) {idx. idx < n}
    \<and> (\<forall>idx. idx < PLX_A_LUT_MAX_ARRAY C \<longrightarrow>
          plx_get_a_lut_entry_offset C idx = idx * 4)
    \<and> (\<forall>idx. PLX_A_LUT_MAX_ARRAY C \<le> idx \<longrightarrow>
          plx_get_a_lut_entry_offset C idx =
            PLX_A_LUT_ARRAY_OFFSET C + (idx mod PLX_A_LUT_MAX_ARRAY C) * 4)"
proof (intro conjI allI impI)
  let ?M = "unat (PLX_A_LUT_MAX_ARRAY C)"
  let ?O = "unat (PLX_A_LUT_ARRAY_OFFSET C)"
  have M0: "0 < ?M" using M by (simp add: word_less_nat_alt)
  show "inj_on (plx_get_a_lut_entry_offset C) {idx. idx < n}"
  proof (rule inj_onI)
    fix i j
    assume "i \<in> {idx. idx < n}" "j \<in> {idx. idx < n}"
      and eq: "plx_get_a_lut_entry_offset C i = plx_get_a_lut_entry_offset C j"
    then have bi: "unat i < 2 * ?M" and bj: "unat j < 2 * ?M"
      using two by (simp_all add: word_less_nat_alt)
    have ri: "unat i mod ?M < ?M" and rj: "unat j mod ?M < ?M" using M0 by simp_all
    from eq have e: "(if ?M \<le> unat i then ?O else 0) + (unat i mod ?M) * 4
        = (if ?M \<le> unat j then ?O else 0) + (unat j mod ?M) * 4"
      using entry_offset_unat [OF M fit] by metis
    have "unat i = unat j"
    proof (cases "?M \<le> unat i")
      case True
      note hi = this
      show ?thesis
      proof (cases "?M \<le> unat j")
        case True
        with hi e have "unat i mod ?M = unat j mod ?M" by simp
        moreover have "unat i mod ?M = unat i - ?M" using hi bi by (simp add: mod_if)
        moreover have "unat j mod ?M = unat j - ?M" using True bj by (simp add: mod_if)
        ultimately show ?thesis using hi True by linarith
      next
        case False
        with hi e rj apart show ?thesis by simp
      qed
    next
      case False
      note lo = this
      show ?thesis
      proof (cases "?M \<le> unat j")
        case True
        with lo e ri apart show ?thesis by simp
      next
        case False
        with lo e show ?thesis by simp
      qed
    qed
    then show "i = j" by (simp add: word_unat_eq_iff)
  qed
next
  fix idx assume "idx < PLX_A_LUT_MAX_ARRAY C"
  then show "plx_get_a_lut_entry_offset C idx = idx * 4"
    by (simp add: plx_get_a_lut_entry_offset_def not_le [symmetric]
        Word.mod_word_less)
next
  fix idx assume "PLX_A_LUT_MAX_ARRAY C \<le> idx"
  then show "plx_get_a_lut_entry_offset C idx =
            PLX_A_LUT_ARRAY_OFFSET C + (idx mod PLX_A_LUT_MAX_ARRAY C) * 4"
    by (simp add: plx_get_a_lut_entry_offset_def)
qed

theorem entry_offset_two_arrays_witness:
  "0 < PLX_A_LUT_MAX_ARRAY sample_consts
   \<and> unat (256 :: u32) \<le> 2 * unat (PLX_A_LUT_MAX_ARRAY sample_consts)
   \<and> 4 * unat (PLX_A_LUT_MAX_ARRAY sample_consts) \<le> unat (PLX_A_LUT_ARRAY_OFFSET sample_consts)
   \<and> unat (PLX_A_LUT_ARRAY_OFFSET sample_consts) + 4 * unat (PLX_A_LUT_MAX_ARRAY sample_consts)
         \<le> 2 ^ 32
   \<and> plx_get_a_lut_entry_offset sample_consts 5 = 20
   \<and> plx_get_a_lut_entry_offset sample_consts 130 = 0x1008
   \<and> plx_get_a_lut_entry_offset sample_consts 2 \<noteq> plx_get_a_lut_entry_offset sample_consts 130"
proof -
  have h1: "0 < PLX_A_LUT_MAX_ARRAY sample_consts"
    by (simp add: sample_consts_def)
  have h2: "unat (256 :: u32) \<le> 2 * unat (PLX_A_LUT_MAX_ARRAY sample_consts)"
    by (simp add: sample_consts_def)
  have h3: "4 * unat (PLX_A_LUT_MAX_ARRAY sample_consts)
      \<le> unat (PLX_A_LUT_ARRAY_OFFSET sample_consts)"
    by (simp add: sample_consts_def)
  have h4: "unat (PLX_A_LUT_ARRAY_OFFSET sample_consts)
      + 4 * unat (PLX_A_LUT_MAX_ARRAY sample_consts) \<le> 2 ^ 32"
    by (simp add: sample_consts_def)
  note t = entry_offset_two_arrays [OF h1 h2 h3 h4]
  from t have inj: "inj_on (plx_get_a_lut_entry_offset sample_consts) {idx. idx < 256}"
    by blast
  from t have lo: "(5 :: u32) < PLX_A_LUT_MAX_ARRAY sample_consts \<longrightarrow>
      plx_get_a_lut_entry_offset sample_consts 5 = 5 * 4"
    by blast
  from t have hi: "PLX_A_LUT_MAX_ARRAY sample_consts \<le> 130 \<longrightarrow>
      plx_get_a_lut_entry_offset sample_consts 130 =
        PLX_A_LUT_ARRAY_OFFSET sample_consts + (130 mod PLX_A_LUT_MAX_ARRAY sample_consts) * 4"
    by blast
  have c5: "plx_get_a_lut_entry_offset sample_consts 5 = 20"
    using lo by (simp add: sample_consts_def)
  have c130: "plx_get_a_lut_entry_offset sample_consts 130 = 0x1008"
    using hi by (simp add: sample_consts_def)
  have ne: "plx_get_a_lut_entry_offset sample_consts 2 \<noteq> plx_get_a_lut_entry_offset sample_consts 130"
  proof
    assume "plx_get_a_lut_entry_offset sample_consts 2 = plx_get_a_lut_entry_offset sample_consts 130"
    with inj have "(2 :: u32) = 130"
      by (rule inj_onD) simp_all
    then show False by simp
  qed
  show ?thesis using h1 h2 h3 h4 c5 c130 ne by blast
qed

section \<open>Loops\<close>

lemma for_u32_stop: "\<not> i < bound \<Longrightarrow> for_u32 i bound body s = s"
  by (simp add: for_u32.simps)

lemma for_u32_step: "i < bound \<Longrightarrow> for_u32 i bound body s = for_u32 (i + 1) bound body (body i s)"
  by (subst for_u32.simps) simp

lemma foldl_upt_shift:
  "foldl f s (map g [Suc 0..<Suc n]) = foldl f s (map (\<lambda>k. g (Suc k)) [0..<n])"
proof -
  have "[Suc 0..<Suc n] = map Suc [0..<n]"
    by (simp add: map_Suc_upt)
  then show ?thesis by (simp add: comp_def)
qed

lemma for_u32_foldl:
  "unat i + n < 2 ^ 32 \<Longrightarrow>
   for_u32 i (i + of_nat n) body s = foldl (\<lambda>s k. body (i + of_nat k) s) s [0..<n]"
proof (induction n arbitrary: i s)
  case 0
  then show ?case by (simp add: for_u32_stop)
next
  case (Suc n)
  have n32: "Suc n < 2 ^ 32" using Suc.prems by simp
  have un: "unat (of_nat (Suc n) :: u32) = Suc n"
    using n32 by (simp add: unat_of_nat del: of_nat_Suc)
  have "unat (i + of_nat (Suc n)) = unat i + Suc n"
    using Suc.prems un by (simp add: unat_word_ariths del: of_nat_Suc)
  then have lt: "i < i + of_nat (Suc n)"
    by (simp add: word_less_nat_alt del: of_nat_Suc)
  have i1: "unat (i + 1) = unat i + 1"
    using Suc.prems by (simp add: unat_word_ariths)
  have step: "for_u32 i (i + of_nat (Suc n)) body s
      = for_u32 (i + 1) ((i + 1) + of_nat n) body (body i s)"
    using for_u32_step [OF lt, of body s] by (simp add: add.commute add.left_commute)
  have "for_u32 (i + 1) ((i + 1) + of_nat n) body (body i s)
      = foldl (\<lambda>s k. body ((i + 1) + of_nat k) s) (body i s) [0..<n]"
    using Suc.prems i1 by (intro Suc.IH) simp
  also have "\<dots> = foldl (\<lambda>s k. body (i + of_nat k) s) (body i s) (map Suc [0..<n])"
    by (simp add: foldl_map add.commute add.left_commute)
  also have "\<dots> = foldl (\<lambda>s k. body (i + of_nat k) s) s (0 # map Suc [0..<n])"
    by simp
  also have "0 # map Suc [0..<n] = [0..<Suc n]"
    by (simp add: upt_conv_Cons map_Suc_upt del: upt_Suc)
  finally show ?case using step by simp
qed

section \<open>The boot-parameter address\<close>

lemma split_join_u64:
  "(ucast (ucast v :: u32) :: u64) OR push_bit 32 (ucast (ucast (drop_bit 32 v) :: u32) :: u64) = (v :: u64)"
  by (rule bit_word_eqI) (auto simp: bit_simps)

text \<open>
  C10. Writing a 64-bit boot-parameter address with \<open>plx_set_dp_addr\<close> and reading it
  back with \<open>plx_get_dp_addr\<close> returns the same value, when the low and the high half
  go to two different scratchpad registers.
\<close>

theorem plx_dp_addr_roundtrip:
  assumes "reg_base xdev + PLX_SPAD0 C + PLX_DPLO_SPAD C * 4
             \<noteq> reg_base xdev + PLX_SPAD0 C + PLX_DPHI_SPAD C * 4"
  shows "fst (plx_get_dp_addr C (plx_set_dp_addr C xdev v)) = v"
  using assms
  by (simp add: plx_get_dp_addr_def plx_set_dp_addr_def plx_read_spad_def plx_write_spad_def
      plx_mmio_read_def plx_mmio_write_def Let_def split_join_u64)

theorem plx_dp_addr_roundtrip_witness:
  "reg_base sample_dev + PLX_SPAD0 sample_consts + PLX_DPLO_SPAD sample_consts * 4
     \<noteq> reg_base sample_dev + PLX_SPAD0 sample_consts + PLX_DPHI_SPAD sample_consts * 4
   \<and> fst (plx_get_dp_addr sample_consts
            (plx_set_dp_addr sample_consts sample_dev 0x123456789ABCDEF0)) = 0x123456789ABCDEF0"
proof -
  have h: "reg_base sample_dev + PLX_SPAD0 sample_consts + PLX_DPLO_SPAD sample_consts * 4
     \<noteq> reg_base sample_dev + PLX_SPAD0 sample_consts + PLX_DPHI_SPAD sample_consts * 4"
    by (simp add: sample_dev_def sample_consts_def)
  show ?thesis
    using h plx_dp_addr_roundtrip [OF h, of "0x123456789ABCDEF0"] by simp
qed

section \<open>Rejected requests\<close>

lemma unat_ucast_u32_u64: "unat (ucast (w :: u32) :: u64) = unat w"
proof -
  have "unat w < 2 ^ 32" using unsigned_less [of w] by simp
  then have "unat w < 2 ^ 64" by simp
  then show ?thesis
    by (simp add: unsigned_ucast_eq take_bit_nat_eq_self)
qed

lemma unat_table_span:
  assumes "unat (n :: u32) * unat (s :: u64) \<le> unat (a :: u64)"
  shows "unat (ucast n * s) = unat n * unat s"
proof -
  have "unat a < 2 ^ 64" using unsigned_less [of a] by simp
  with assms have "unat n * unat s < 2 ^ 64" by simp
  then show ?thesis
    by (simp add: unat_word_ariths unat_ucast_u32_u64)
qed

text \<open>
  C6. With a segment size that is not 0 (the function divides by it first),
  \<open>plx_del_a_lut_entry\<close> called with an address at or beyond
  \<open>segments_num * segment_size\<close> (the product taken in the natural numbers, so that one
  past the end is included) returns, and returns the device as it was: the manager is
  not called, no register is written and no event is issued.
\<close>

theorem plx_del_a_lut_entry_out_of_range:
  assumes size: "0 < segment_size (a_lut_manager xdev)"
    and out: "unat (segments_num (a_lut_manager xdev)) * unat (segment_size (a_lut_manager xdev))
             \<le> unat addr"
  shows "plx_del_a_lut_entry C xdev addr = Some xdev"
proof -
  from size have nz: "segment_size (a_lut_manager xdev) \<noteq> 0"
    by auto
  have "ucast (segments_num (a_lut_manager xdev)) * segment_size (a_lut_manager xdev) \<le> addr"
    using out unat_table_span [OF out] by (simp add: word_le_nat_alt)
  with nz show ?thesis
    by (simp add: plx_del_a_lut_entry_def)
qed

theorem plx_del_a_lut_entry_out_of_range_witness:
  "0 < segment_size (a_lut_manager sample_dev)
   \<and> unat (segments_num (a_lut_manager sample_dev)) * unat (segment_size (a_lut_manager sample_dev))
     \<le> unat (0x4000 :: u64)
   \<and> plx_del_a_lut_entry sample_consts sample_dev 0x4000 = Some sample_dev"
proof -
  have s: "0 < segment_size (a_lut_manager sample_dev)"
    by (simp add: sample_dev_def sample_alm_def word_less_nat_alt)
  have h: "unat (segments_num (a_lut_manager sample_dev))
      * unat (segment_size (a_lut_manager sample_dev)) \<le> unat (0x4000 :: u64)"
    by (simp add: sample_dev_def sample_alm_def)
  show ?thesis
    using s h plx_del_a_lut_entry_out_of_range [OF s h, of sample_consts] by simp
qed

lemma plx_del_a_lut_entry_faults:
  "segment_size (a_lut_manager xdev) = 0 \<Longrightarrow> plx_del_a_lut_entry C xdev addr = None"
  by (simp add: plx_del_a_lut_entry_def)

text \<open>
  C7. When the segment manager reports that there is no space, \<open>plx_add_a_lut_entry\<close>
  returns \<open>-ENOMEM\<close> and leaves the register window as it was: no register is written
  and no event is issued.
\<close>

theorem plx_add_a_lut_entry_no_space:
  assumes "fst (plx_alm_add_entry (a_lut_manager xdev) addr sz) = ALM_NOSPACE"
  shows "snd (plx_add_a_lut_entry C xdev addr sz) = Inl ENOMEM
    \<and> mmio (fst (plx_add_a_lut_entry C xdev addr sz)) = mmio xdev"
  using assms
  by (cases "plx_alm_add_entry (a_lut_manager xdev) addr sz")
     (simp add: plx_add_a_lut_entry_def Let_def)


theorem plx_add_a_lut_entry_no_space_witness:
  "fst (plx_alm_add_entry (a_lut_manager sample_dev) 0 0x5000) = ALM_NOSPACE
   \<and> snd (plx_add_a_lut_entry sample_consts sample_dev 0 0x5000) = Inl ENOMEM
   \<and> mmio (fst (plx_add_a_lut_entry sample_consts sample_dev 0 0x5000)) = mmio sample_dev"
proof -
  have h: "fst (plx_alm_add_entry (a_lut_manager sample_dev) 0 0x5000) = ALM_NOSPACE"
    by (simp add: alm_defs sample_defs upt_conv_Cons)
  show ?thesis
    using h plx_add_a_lut_entry_no_space [OF h, of sample_consts] by simp
qed

section \<open>What the manager returns\<close>

lemma first_fit_SomeD:
  "first_fit alm n = Some s \<Longrightarrow> s + n \<le> unat (segments_num alm) \<and> range_free (alm_runs alm) s n"
  by (auto simp: first_fit_def find_Some_iff)

lemma alm_add_ok:
  assumes "plx_alm_add_entry alm addr sz = (ALM_OK, alm', sid, n)"
  shows "\<exists>s. first_fit alm (segments_needed alm addr sz) = Some s
     \<and> find (run_covers (addr AND NOT (segment_size alm - 1)) (segments_needed alm addr sz))
          (alm_runs alm) = None
     \<and> sid = of_nat s \<and> n = of_nat (segments_needed alm addr sz)
     \<and> alm' = alm\<lparr>alm_runs :=
          \<lparr>run_start = s, run_count = segments_needed alm addr sz,
            run_addr = addr AND NOT (segment_size alm - 1), run_refs = 1\<rparr> # alm_runs alm\<rparr>"
  using assms
  by (auto simp: plx_alm_add_entry_def Let_def split: option.splits)

lemma unat_of_nat_u32: "k < 2 ^ 32 \<Longrightarrow> unat (of_nat k :: u32) = k"
  by (simp add: unat_of_nat)

lemma alm_add_ok_bounds:
  assumes "plx_alm_add_entry alm addr sz = (ALM_OK, alm', sid, n)"
  shows "unat sid + unat n \<le> unat (segments_num alm)
     \<and> unat n = segments_needed alm addr sz
     \<and> segment_size alm' = segment_size alm"
proof -
  from alm_add_ok [OF assms] obtain s where
    ff: "first_fit alm (segments_needed alm addr sz) = Some s"
    and sid: "sid = of_nat s" and n: "n = of_nat (segments_needed alm addr sz)"
    and alm': "alm' = alm\<lparr>alm_runs :=
          \<lparr>run_start = s, run_count = segments_needed alm addr sz,
            run_addr = addr AND NOT (segment_size alm - 1), run_refs = 1\<rparr> # alm_runs alm\<rparr>"
    by blast
  have le: "s + segments_needed alm addr sz \<le> unat (segments_num alm)"
    using first_fit_SomeD [OF ff] by simp
  have "unat (segments_num alm) < 2 ^ 32"
    using unsigned_less [of "segments_num alm"] by simp
  with le have "s < 2 ^ 32" "segments_needed alm addr sz < 2 ^ 32" by simp_all
  then have "unat sid = s" "unat n = segments_needed alm addr sz"
    using sid n by (simp_all add: unat_of_nat_u32)
  with le alm' show ?thesis by simp
qed

lemma events_program_entry:
  "a_lut_program_entry C xdev i (m, l, a) = (m', l', a') \<Longrightarrow>
   events m' = events m @ programmed_entry_events C (a_lut_array_base xdev) i a
   \<and> l' = a_lut_array_base xdev + plx_get_a_lut_entry_offset C i
            + PLX_A_LUT_PERMISSION_SUBARRAY_OFFSET C
   \<and> a' = a + segment_size (a_lut_manager xdev)"
  by (auto simp: a_lut_program_entry_def programmed_entry_events_def Let_def
      plx_mmio_write_def barrier_def)

lemma program_entries_foldl:
  "foldl (\<lambda>st k. a_lut_program_entry C xdev (i + of_nat k) st) (m, l, a) [0..<n] = (m', l', a') \<Longrightarrow>
   events m' = events m @ concat (map (\<lambda>k. programmed_entry_events C (a_lut_array_base xdev)
       (i + of_nat k) (a + of_nat k * segment_size (a_lut_manager xdev))) [0..<n])
   \<and> l' = (if n = 0 then l
           else a_lut_array_base xdev + plx_get_a_lut_entry_offset C (i + of_nat (n - 1))
                  + PLX_A_LUT_PERMISSION_SUBARRAY_OFFSET C)
   \<and> a' = a + of_nat n * segment_size (a_lut_manager xdev)"
proof (induction n arbitrary: m' l' a')
  case 0
  then show ?case by simp
next
  case (Suc n)
  obtain m1 l1 a1 where
    f: "foldl (\<lambda>st k. a_lut_program_entry C xdev (i + of_nat k) st) (m, l, a) [0..<n] = (m1, l1, a1)"
    by (cases "foldl (\<lambda>st k. a_lut_program_entry C xdev (i + of_nat k) st) (m, l, a) [0..<n]") auto
  from Suc.prems f have step: "a_lut_program_entry C xdev (i + of_nat n) (m1, l1, a1) = (m', l', a')"
    by simp
  note ih = Suc.IH [OF f]
  note st = events_program_entry [OF step]
  show ?case
    using ih st by (simp add: algebra_simps)
qed

lemma events_clear_permission_foldl:
  "events (foldl (\<lambda>m k. a_lut_clear_permission C xdev (i + of_nat k) m) m [0..<n])
     = events m @ map (\<lambda>k. Write32 0 (a_lut_array_base xdev
          + (plx_get_a_lut_entry_offset C (i + of_nat k) + PLX_A_LUT_PERMISSION_SUBARRAY_OFFSET C)))
        [0..<n]"
  by (induction n) (simp_all add: a_lut_clear_permission_def plx_mmio_write_def Let_def)

lemma regs_clear_permission_foldl:
  "regs (foldl (\<lambda>m k. a_lut_clear_permission C xdev (i + of_nat k) m) m [0..<n]) off
     = (if off \<in> (\<lambda>k. a_lut_array_base xdev
          + (plx_get_a_lut_entry_offset C (i + of_nat k) + PLX_A_LUT_PERMISSION_SUBARRAY_OFFSET C))
            ` {0..<n}
        then 0 else regs m off)"
  by (induction n)
     (auto simp: a_lut_clear_permission_def plx_mmio_write_def Let_def atLeast0_lessThan_Suc)

lemma events_clear_entry_foldl:
  "events (foldl (\<lambda>m k. a_lut_clear_entry C offset (of_nat k) m) m [0..<n])
     = events m @ concat (map (\<lambda>k.
         [Write32 0 (plx_get_a_lut_entry_offset C (of_nat k) + offset
            + PLX_A_LUT_PERMISSION_SUBARRAY_OFFSET C),
          Write32 0 (plx_get_a_lut_entry_offset C (of_nat k) + offset
            + PLX_A_LUT_HIGHER_RE_MAP_SUBARRAY_OFFSET C),
          Write32 0 (plx_get_a_lut_entry_offset C (of_nat k) + offset
            + PLX_A_LUT_LOWER_RE_MAP_SUBARRAY_OFFSET C)]) [0..<n])"
  by (induction n) (simp_all add: a_lut_clear_entry_def plx_mmio_write_def Let_def)

lemma events_plx_a_lut_clear:
  "events (mmio (plx_a_lut_clear C xdev offset))
     = events (mmio xdev) @ concat (map (\<lambda>k.
         [Write32 0 (plx_get_a_lut_entry_offset C (of_nat k) + offset
            + PLX_A_LUT_PERMISSION_SUBARRAY_OFFSET C),
          Write32 0 (plx_get_a_lut_entry_offset C (of_nat k) + offset
            + PLX_A_LUT_HIGHER_RE_MAP_SUBARRAY_OFFSET C),
          Write32 0 (plx_get_a_lut_entry_offset C (of_nat k) + offset
            + PLX_A_LUT_LOWER_RE_MAP_SUBARRAY_OFFSET C)])
        [0..<unat (segments_num (a_lut_manager xdev))])"
proof -
  let ?N = "segments_num (a_lut_manager xdev)"
  have fit: "unat (0 :: u32) + unat ?N < 2 ^ 32"
    using unsigned_less [of ?N] by simp
  have "for_u32 0 ?N (a_lut_clear_entry C offset) (mmio xdev)
      = foldl (\<lambda>m k. a_lut_clear_entry C offset (of_nat k) m) (mmio xdev) [0..<unat ?N]"
    using for_u32_foldl [OF fit, of "a_lut_clear_entry C offset" "mmio xdev"] by simp
  then show ?thesis
    by (simp add: plx_a_lut_clear_def plx_alm_reset_def Let_def events_clear_entry_foldl)
qed

lemma find_SomeD: "find P xs = Some x \<Longrightarrow> x \<in> set xs \<and> P x"
  by (auto simp: find_Some_iff)

lemma alm_del_bounds:
  assumes wf: "alm_wf alm"
    and del: "plx_alm_del_entry alm sid = (alm', start, n)"
  shows "unat start + unat n < 2 ^ 32 \<and> segment_size alm' = segment_size alm
     \<and> segments_num alm' = segments_num alm"
proof (cases "find (run_contains (unat sid)) (alm_runs alm)")
  case None
  with del show ?thesis by (auto simp: plx_alm_del_entry_def)
next
  case (Some r)
  from find_SomeD [OF Some] wf have ok: "run_ok alm r"
    by (auto simp: alm_wf_def list_all_iff)
  have N: "unat (segments_num alm) < 2 ^ 32"
    using unsigned_less [of "segments_num alm"] by simp
  from ok N have s: "run_start r < 2 ^ 32" and c: "run_count r < 2 ^ 32"
    and sc: "run_start r + run_count r < 2 ^ 32"
    by (auto simp: run_ok_def)
  show ?thesis
  proof (cases "run_refs r \<le> 1")
    case True
    with del Some have "start = of_nat (run_start r)" "n = of_nat (run_count r)"
      and "alm' = alm\<lparr>alm_runs := drop_ref (run_contains (unat sid)) (alm_runs alm)\<rparr>"
      by (auto simp: plx_alm_del_entry_def)
    with s c sc show ?thesis by (simp add: unat_of_nat_u32)
  next
    case False
    with del Some show ?thesis by (auto simp: plx_alm_del_entry_def)
  qed
qed

lemma plx_del_in_range:
  assumes wf: "alm_wf (a_lut_manager xdev)"
    and inr: "addr < ucast (segments_num (a_lut_manager xdev)) * segment_size (a_lut_manager xdev)"
    and del: "plx_alm_del_entry (a_lut_manager xdev)
                (ucast (addr div segment_size (a_lut_manager xdev))) = (alm', start, n)"
  shows "plx_del_a_lut_entry C xdev addr =
     Some (xdev\<lparr>a_lut_manager := alm',
          mmio := foldl (\<lambda>m k. a_lut_clear_permission C xdev (start + of_nat k) m) (mmio xdev)
                    [0..<unat n]\<rparr>)"
proof -
  from wf have nz: "segment_size (a_lut_manager xdev) \<noteq> 0"
    by (auto simp: alm_wf_def)
  note b = alm_del_bounds [OF wf del]
  then have fit: "unat start + unat n < 2 ^ 32" by simp
  let ?xdev1 = "xdev\<lparr>a_lut_manager := alm'\<rparr>"
  have body: "a_lut_clear_permission C ?xdev1 = a_lut_clear_permission C xdev"
    by (rule ext)+ (simp add: a_lut_clear_permission_def)
  have loop: "for_u32 start (start + n) (a_lut_clear_permission C ?xdev1) (mmio xdev)
      = foldl (\<lambda>m k. a_lut_clear_permission C xdev (start + of_nat k) m) (mmio xdev) [0..<unat n]"
    using for_u32_foldl [OF fit, of "a_lut_clear_permission C ?xdev1" "mmio xdev"]
    by (simp add: body)
  have n0: "n = 0 \<Longrightarrow> unat n = 0" by simp
  from inr have nge: "\<not> ucast (segments_num (a_lut_manager xdev)) * segment_size (a_lut_manager xdev)
      \<le> addr"
    by simp
  show ?thesis
  proof (cases "n = 0")
    case True
    with nz nge del show ?thesis
      by (simp add: plx_del_a_lut_entry_def Let_def)
  next
    case False
    with nz nge del loop show ?thesis
      by (simp add: plx_del_a_lut_entry_def Let_def)
  qed
qed

section \<open>Programming a run\<close>

text \<open>
  C4, as the code has it. When \<open>plx_add_a_lut_entry\<close> programs a new run, it issues for
  each segment of the run, in index order: the write of the high 32 bits of the masked
  address, the write of its low 32 bits, a write barrier, and the write of the permission
  with read and write enabled; the masked address advances by one segment size per
  segment. After the last segment come a full barrier and then a read of the permission
  register written last, the read being left out when that register's offset is 0 or the
  run is empty.
\<close>

theorem plx_add_a_lut_entry_programs:
  assumes ok: "plx_alm_add_entry (a_lut_manager xdev) addr sz = (ALM_OK, alm', segment_id, n)"
  shows "events (mmio (fst (plx_add_a_lut_entry C xdev addr sz))) =
     events (mmio xdev)
     @ concat (map (\<lambda>k. programmed_entry_events C (a_lut_array_base xdev) (segment_id + of_nat k)
          ((addr AND NOT (segment_size (a_lut_manager xdev) - 1))
             + of_nat k * segment_size (a_lut_manager xdev))) [0..<unat n])
     @ [Mb]
     @ (let last_permission_reg =
              a_lut_array_base xdev + plx_get_a_lut_entry_offset C (segment_id + of_nat (unat n - 1))
                + PLX_A_LUT_PERMISSION_SUBARRAY_OFFSET C
        in if n = 0 \<or> last_permission_reg = 0 then [] else [Read32 last_permission_reg])"
proof -
  let ?xdev1 = "xdev\<lparr>a_lut_manager := alm'\<rparr>"
  let ?am = "addr AND NOT (segment_size (a_lut_manager xdev) - 1)"
  note b = alm_add_ok_bounds [OF ok]
  have "unat (segments_num (a_lut_manager xdev)) < 2 ^ 32"
    using unsigned_less [of "segments_num (a_lut_manager xdev)"] by simp
  with b have fit: "unat segment_id + unat n < 2 ^ 32" by simp
  have loop: "for_u32 segment_id (segment_id + n) (a_lut_program_entry C ?xdev1) (mmio xdev, 0, ?am)
      = foldl (\<lambda>st k. a_lut_program_entry C ?xdev1 (segment_id + of_nat k) st)
          (mmio xdev, 0, ?am) [0..<unat n]"
    using for_u32_foldl [OF fit, of "a_lut_program_entry C ?xdev1" "(mmio xdev, 0, ?am)"] by simp
  obtain m l a where
    f: "foldl (\<lambda>st k. a_lut_program_entry C ?xdev1 (segment_id + of_nat k) st)
          (mmio xdev, 0, ?am) [0..<unat n] = (m, l, a)"
    by (cases "foldl (\<lambda>st k. a_lut_program_entry C ?xdev1 (segment_id + of_nat k) st)
          (mmio xdev, 0, ?am) [0..<unat n]") auto
  note p = program_entries_foldl [OF f]
  have n0: "(unat n = 0) = (n = 0)"
    by (simp add: unat_eq_0)
  have res: "mmio (fst (plx_add_a_lut_entry C xdev addr sz))
      = (if l \<noteq> 0 then snd (plx_mmio_read (barrier Mb m) l) else barrier Mb m)"
    using ok loop f by (simp add: plx_add_a_lut_entry_def Let_def)
  show ?thesis
  proof (cases "n = 0")
    case True
    with p res show ?thesis
      by (simp add: barrier_def plx_mmio_read_def Let_def)
  next
    case False
    with n0 have "unat n \<noteq> 0" by simp
    with p res b False show ?thesis
      by (simp add: barrier_def plx_mmio_read_def Let_def)
  qed
qed

theorem plx_add_a_lut_entry_programs_witness:
  "plx_alm_add_entry (a_lut_manager sample_dev) 0x123451800 0x900 =
     (ALM_OK,
      \<lparr>segment_size = 0x1000, segments_num = 4,
        alm_runs = [\<lparr>run_start = 0, run_count = 2, run_addr = 0x123451000, run_refs = 1\<rparr>]\<rparr>,
      0, 2)
   \<and> events (mmio (fst (plx_add_a_lut_entry sample_consts sample_dev 0x123451800 0x900))) =
       [Write32 1 0x38400, Write32 0x23451000 0x38000, Wmb, Write32 3 0x38800,
        Write32 1 0x38404, Write32 0x23452000 0x38004, Wmb, Write32 3 0x38804,
        Mb, Read32 0x38804]"
proof -
  have h: "plx_alm_add_entry (a_lut_manager sample_dev) 0x123451800 0x900 =
     (ALM_OK,
      \<lparr>segment_size = 0x1000, segments_num = 4,
        alm_runs = [\<lparr>run_start = 0, run_count = 2, run_addr = 0x123451000, run_refs = 1\<rparr>]\<rparr>,
      0, 2)"
    by (simp add: alm_defs sample_defs upt_conv_Cons)
  have "events (mmio (fst (plx_add_a_lut_entry sample_consts sample_dev 0x123451800 0x900))) =
       [Write32 1 0x38400, Write32 0x23451000 0x38000, Wmb, Write32 3 0x38800,
        Write32 1 0x38404, Write32 0x23452000 0x38004, Wmb, Write32 3 0x38804,
        Mb, Read32 0x38804]"
    using plx_add_a_lut_entry_programs [OF h, of sample_consts]
    by (simp add: programmed_entry_events_def plx_get_a_lut_entry_offset_def sample_defs
        upt_conv_Cons word_le_nat_alt Let_def)
  with h show ?thesis by simp
qed

text \<open>
  The write barrier does not stand between the two halves of the address: the first four
  events of a mapping are high half, low half, barrier, permission.
\<close>

theorem plx_add_a_lut_entry_barrier_counterexample:
  "take 4 (events (mmio (fst (plx_add_a_lut_entry sample_consts sample_dev 0x123451800 0x900))))
     = [Write32 1 0x38400, Write32 0x23451000 0x38000, Wmb, Write32 3 0x38800]
   \<and> take 4 (events (mmio (fst (plx_add_a_lut_entry sample_consts sample_dev 0x123451800 0x900))))
     \<noteq> [Write32 1 0x38400, Wmb, Write32 0x23451000 0x38000, Write32 3 0x38800]"
  by (simp add: alm_defs facade_defs sample_defs for_u32.simps upt_conv_Cons
      word_le_nat_alt word_less_nat_alt)

section \<open>Clearing entries\<close>

text \<open>
  C5, as the code has it. When \<open>plx_del_a_lut_entry\<close> is called with an address inside
  the table, it returns, the only events it issues are writes of zero to the permission
  registers of the segments that the manager reports freed, and every other register
  keeps its value:
  the high and low remap registers are not written. \<open>plx_a_lut_clear\<close> goes through all
  entries of the table and writes zero to the permission, the high remap and the low
  remap register of each.
\<close>

theorem a_lut_clear_writes:
  assumes wf: "alm_wf (a_lut_manager xdev)"
    and del: "plx_alm_del_entry (a_lut_manager xdev)
                (ucast (addr div segment_size (a_lut_manager xdev))) = (alm', start, n)"
    and inr: "addr < ucast (segments_num (a_lut_manager xdev)) * segment_size (a_lut_manager xdev)"
  shows "(\<exists>xdev'. plx_del_a_lut_entry C xdev addr = Some xdev'
     \<and> events (mmio xdev') =
       events (mmio xdev) @ map (\<lambda>k. Write32 0 (a_lut_array_base xdev
          + (plx_get_a_lut_entry_offset C (start + of_nat k)
               + PLX_A_LUT_PERMISSION_SUBARRAY_OFFSET C))) [0..<unat n]
     \<and> (\<forall>off. off \<notin> (\<lambda>k. a_lut_array_base xdev
          + (plx_get_a_lut_entry_offset C (start + of_nat k)
               + PLX_A_LUT_PERMISSION_SUBARRAY_OFFSET C)) ` {0..<unat n}
        \<longrightarrow> regs (mmio xdev') off = regs (mmio xdev) off))
   \<and> events (mmio (plx_a_lut_clear C xdev offset)) =
       events (mmio xdev) @ concat (map (\<lambda>k.
         [Write32 0 (plx_get_a_lut_entry_offset C (of_nat k) + offset
            + PLX_A_LUT_PERMISSION_SUBARRAY_OFFSET C),
          Write32 0 (plx_get_a_lut_entry_offset C (of_nat k) + offset
            + PLX_A_LUT_HIGHER_RE_MAP_SUBARRAY_OFFSET C),
          Write32 0 (plx_get_a_lut_entry_offset C (of_nat k) + offset
            + PLX_A_LUT_LOWER_RE_MAP_SUBARRAY_OFFSET C)])
        [0..<unat (segments_num (a_lut_manager xdev))])"
proof (rule conjI)
  let ?xdev' = "xdev\<lparr>a_lut_manager := alm',
      mmio := foldl (\<lambda>m k. a_lut_clear_permission C xdev (start + of_nat k) m) (mmio xdev)
                [0..<unat n]\<rparr>"
  note d = plx_del_in_range [OF wf inr del, of C]
  have e: "events (mmio ?xdev') =
       events (mmio xdev) @ map (\<lambda>k. Write32 0 (a_lut_array_base xdev
          + (plx_get_a_lut_entry_offset C (start + of_nat k)
               + PLX_A_LUT_PERMISSION_SUBARRAY_OFFSET C))) [0..<unat n]"
    by (simp add: events_clear_permission_foldl)
  have r: "\<forall>off. off \<notin> (\<lambda>k. a_lut_array_base xdev
          + (plx_get_a_lut_entry_offset C (start + of_nat k)
               + PLX_A_LUT_PERMISSION_SUBARRAY_OFFSET C)) ` {0..<unat n}
        \<longrightarrow> regs (mmio ?xdev') off = regs (mmio xdev) off"
    by (simp add: regs_clear_permission_foldl)
  from d e r
  show "\<exists>xdev'. plx_del_a_lut_entry C xdev addr = Some xdev'
     \<and> events (mmio xdev') =
       events (mmio xdev) @ map (\<lambda>k. Write32 0 (a_lut_array_base xdev
          + (plx_get_a_lut_entry_offset C (start + of_nat k)
               + PLX_A_LUT_PERMISSION_SUBARRAY_OFFSET C))) [0..<unat n]
     \<and> (\<forall>off. off \<notin> (\<lambda>k. a_lut_array_base xdev
          + (plx_get_a_lut_entry_offset C (start + of_nat k)
               + PLX_A_LUT_PERMISSION_SUBARRAY_OFFSET C)) ` {0..<unat n}
        \<longrightarrow> regs (mmio xdev') off = regs (mmio xdev) off)"
    by blast
next
  show "events (mmio (plx_a_lut_clear C xdev offset)) =
       events (mmio xdev) @ concat (map (\<lambda>k.
         [Write32 0 (plx_get_a_lut_entry_offset C (of_nat k) + offset
            + PLX_A_LUT_PERMISSION_SUBARRAY_OFFSET C),
          Write32 0 (plx_get_a_lut_entry_offset C (of_nat k) + offset
            + PLX_A_LUT_HIGHER_RE_MAP_SUBARRAY_OFFSET C),
          Write32 0 (plx_get_a_lut_entry_offset C (of_nat k) + offset
            + PLX_A_LUT_LOWER_RE_MAP_SUBARRAY_OFFSET C)])
        [0..<unat (segments_num (a_lut_manager xdev))])"
    by (rule events_plx_a_lut_clear)
qed

lemma sample_alm_busy_wf: "alm_wf (a_lut_manager sample_dev_busy)"
  by (simp add: alm_wf_def run_ok_def runs_apart_def sample_defs)

theorem a_lut_clear_writes_witness:
  "alm_wf (a_lut_manager sample_dev_busy)
   \<and> plx_alm_del_entry (a_lut_manager sample_dev_busy)
        (ucast ((0x800 :: u64) div segment_size (a_lut_manager sample_dev_busy))) =
       (\<lparr>segment_size = 0x1000, segments_num = 4,
          alm_runs = [\<lparr>run_start = 1, run_count = 2, run_addr = 0x1000, run_refs = 2\<rparr>]\<rparr>, 0, 1)
   \<and> (0x800 :: u64) < ucast (segments_num (a_lut_manager sample_dev_busy))
         * segment_size (a_lut_manager sample_dev_busy)
   \<and> (\<exists>xdev'. plx_del_a_lut_entry sample_consts sample_dev_busy 0x800 = Some xdev'
        \<and> events (mmio xdev') = [Write32 0 0x38800]
        \<and> regs (mmio xdev') 0x38400 = 7
        \<and> regs (mmio xdev') 0x38000 = 7)
   \<and> events (mmio (plx_a_lut_clear sample_consts sample_dev_busy 0x38000)) =
       [Write32 0 0x38800, Write32 0 0x38400, Write32 0 0x38000,
        Write32 0 0x38804, Write32 0 0x38404, Write32 0 0x38004,
        Write32 0 0x38808, Write32 0 0x38408, Write32 0 0x38008,
        Write32 0 0x3880C, Write32 0 0x3840C, Write32 0 0x3800C]"
proof -
  have h2: "plx_alm_del_entry (a_lut_manager sample_dev_busy)
        (ucast ((0x800 :: u64) div segment_size (a_lut_manager sample_dev_busy))) =
       (\<lparr>segment_size = 0x1000, segments_num = 4,
          alm_runs = [\<lparr>run_start = 1, run_count = 2, run_addr = 0x1000, run_refs = 2\<rparr>]\<rparr>, 0, 1)"
    by (simp add: alm_defs sample_defs)
  have h3: "(0x800 :: u64) < ucast (segments_num (a_lut_manager sample_dev_busy))
         * segment_size (a_lut_manager sample_dev_busy)"
    by (simp add: sample_defs word_less_nat_alt)
  note t = a_lut_clear_writes [OF sample_alm_busy_wf h2 h3, of sample_consts "0x38000"]
  from t obtain xdev' where
    d: "plx_del_a_lut_entry sample_consts sample_dev_busy 0x800 = Some xdev'"
    and e0: "events (mmio xdev') =
       events (mmio sample_dev_busy) @ map (\<lambda>k. Write32 0 (a_lut_array_base sample_dev_busy
          + (plx_get_a_lut_entry_offset sample_consts (0 + of_nat k)
               + PLX_A_LUT_PERMISSION_SUBARRAY_OFFSET sample_consts))) [0..<unat (1 :: u32)]"
    and r0: "\<forall>off. off \<notin> (\<lambda>k. a_lut_array_base sample_dev_busy
          + (plx_get_a_lut_entry_offset sample_consts (0 + of_nat k)
               + PLX_A_LUT_PERMISSION_SUBARRAY_OFFSET sample_consts)) ` {0..<unat (1 :: u32)}
        \<longrightarrow> regs (mmio xdev') off = regs (mmio sample_dev_busy) off"
    by blast
  have e: "events (mmio xdev') = [Write32 0 0x38800]"
    using e0 by (simp add: plx_get_a_lut_entry_offset_def sample_defs word_le_nat_alt)
  have r1: "regs (mmio xdev') 0x38400 = 7"
    using r0 by (simp add: plx_get_a_lut_entry_offset_def sample_defs word_le_nat_alt)
  have r2: "regs (mmio xdev') 0x38000 = 7"
    using r0 by (simp add: plx_get_a_lut_entry_offset_def sample_defs word_le_nat_alt)
  have x: "\<exists>xdev'. plx_del_a_lut_entry sample_consts sample_dev_busy 0x800 = Some xdev'
        \<and> events (mmio xdev') = [Write32 0 0x38800]
        \<and> regs (mmio xdev') 0x38400 = 7
        \<and> regs (mmio xdev') 0x38000 = 7"
    using d e r1 r2 by blast
  have c: "events (mmio (plx_a_lut_clear sample_consts sample_dev_busy 0x38000)) =
       [Write32 0 0x38800, Write32 0 0x38400, Write32 0 0x38000,
        Write32 0 0x38804, Write32 0 0x38404, Write32 0 0x38004,
        Write32 0 0x38808, Write32 0 0x38408, Write32 0 0x38008,
        Write32 0 0x3880C, Write32 0 0x3840C, Write32 0 0x3800C]"
    using t by (simp add: plx_get_a_lut_entry_offset_def sample_defs word_le_nat_alt
        upt_conv_Cons)
  show ?thesis using sample_alm_busy_wf h2 h3 x c by blast
qed

text \<open>
  \<open>plx_a_lut_clear\<close> does not leave the remap registers alone: the high and the low remap
  register of entry 0 hold 7 before it and 0 after it.
\<close>

theorem plx_a_lut_clear_remap_counterexample:
  "regs (mmio sample_dev_busy) 0x38400 = 7
   \<and> regs (mmio (plx_a_lut_clear sample_consts sample_dev_busy 0x38000)) 0x38400 = 0
   \<and> regs (mmio sample_dev_busy) 0x38000 = 7
   \<and> regs (mmio (plx_a_lut_clear sample_consts sample_dev_busy 0x38000)) 0x38000 = 0"
  by (simp add: plx_a_lut_clear_def plx_alm_reset_def a_lut_clear_entry_def
      plx_get_a_lut_entry_offset_def plx_mmio_write_def sample_defs for_u32.simps
      word_le_nat_alt word_less_nat_alt Let_def)

section \<open>Reference counts\<close>

lemma find_drop_ref_kept:
  "find P rs = Some r \<Longrightarrow> 1 < run_refs r \<Longrightarrow> (\<And>q k. P (q\<lparr>run_refs := k\<rparr>) = P q) \<Longrightarrow>
   find P (drop_ref P rs) = Some (r\<lparr>run_refs := run_refs r - 1\<rparr>)"
  by (induction rs) (auto split: if_splits)

lemma run_contains_refs [simp]: "run_contains i (q\<lparr>run_refs := k\<rparr>) = run_contains i q"
  by (simp add: run_contains_def)

lemma apart_not_both:
  "runs_apart a q \<Longrightarrow> run_contains i a \<Longrightarrow> \<not> run_contains i q"
  by (auto simp: runs_apart_def run_contains_def)

lemma drop_ref_frees:
  "runs_disjoint rs \<Longrightarrow> find (run_contains i) rs = Some r \<Longrightarrow> run_refs r \<le> 1 \<Longrightarrow>
   \<not> segment_used (drop_ref (run_contains i) rs) i"
proof (induction rs)
  case Nil
  then show ?case by simp
next
  case (Cons a rs)
  show ?case
  proof (cases "run_contains i a")
    case True
    with Cons.prems have "a = r" by simp
    moreover from Cons.prems have "list_all (runs_apart a) rs" by simp
    then have "\<forall>q \<in> set rs. \<not> run_contains i q"
      using True by (auto simp: list_all_iff dest: apart_not_both)
    ultimately show ?thesis
      using True Cons.prems by (simp add: segment_used_def list_ex_iff)
  next
    case False
    with Cons show ?thesis
      by (simp add: segment_used_def)
  qed
qed

text \<open>
  C8. Let \<open>plx_del_a_lut_entry\<close> be called with an address inside the table whose
  segment lies in the allocated run \<open>r\<close>. The call returns. While \<open>r\<close> has more than one
  reference, it leaves the register window untouched (no write, no event) and takes one reference
  off the run. When \<open>r\<close> has exactly one reference, the call writes zero to the
  permission register of every segment of the run, and to nothing else, and the segment
  is free afterwards.
\<close>

theorem plx_del_a_lut_entry_refcount:
  assumes wf: "alm_wf (a_lut_manager xdev)"
    and inr: "addr < ucast (segments_num (a_lut_manager xdev)) * segment_size (a_lut_manager xdev)"
    and run: "find (run_contains (unat (ucast (addr div segment_size (a_lut_manager xdev)) :: u32)))
                (alm_runs (a_lut_manager xdev)) = Some r"
  shows "\<exists>xdev'. plx_del_a_lut_entry C xdev addr = Some xdev'
   \<and> (1 < run_refs r \<longrightarrow>
            mmio xdev' = mmio xdev
          \<and> find (run_contains (unat (ucast (addr div segment_size (a_lut_manager xdev)) :: u32)))
               (alm_runs (a_lut_manager xdev'))
              = Some (r\<lparr>run_refs := run_refs r - 1\<rparr>))
   \<and> (run_refs r = 1 \<longrightarrow>
            events (mmio xdev') =
              events (mmio xdev) @ map (\<lambda>k. Write32 0 (a_lut_array_base xdev
                + (plx_get_a_lut_entry_offset C (of_nat (run_start r + k))
                     + PLX_A_LUT_PERMISSION_SUBARRAY_OFFSET C))) [0..<run_count r]
          \<and> \<not> segment_used (alm_runs (a_lut_manager xdev'))
                 (unat (ucast (addr div segment_size (a_lut_manager xdev)) :: u32)))"
proof -
  let ?alm = "a_lut_manager xdev"
  let ?sid = "ucast (addr div segment_size ?alm) :: u32"
  let ?P = "run_contains (unat ?sid)"
  obtain alm' st n where del: "plx_alm_del_entry ?alm ?sid = (alm', st, n)"
    by (cases "plx_alm_del_entry ?alm ?sid") auto
  let ?xdev' = "xdev\<lparr>a_lut_manager := alm',
      mmio := foldl (\<lambda>m k. a_lut_clear_permission C xdev (st + of_nat k) m) (mmio xdev)
                [0..<unat n]\<rparr>"
  note d = plx_del_in_range [OF wf inr del, of C]
  have alm': "alm' = ?alm\<lparr>alm_runs := drop_ref ?P (alm_runs ?alm)\<rparr>"
    using del run by (simp add: plx_alm_del_entry_def)
  have many: "mmio ?xdev' = mmio xdev
      \<and> find ?P (alm_runs (a_lut_manager ?xdev')) = Some (r\<lparr>run_refs := run_refs r - 1\<rparr>)"
    if m: "1 < run_refs r"
  proof -
    from m del run have "n = 0" by (simp add: plx_alm_del_entry_def)
    then show ?thesis
      using find_drop_ref_kept [OF run m] by (simp add: alm')
  qed
  have one: "events (mmio ?xdev') =
        events (mmio xdev) @ map (\<lambda>k. Write32 0 (a_lut_array_base xdev
          + (plx_get_a_lut_entry_offset C (of_nat (run_start r + k))
               + PLX_A_LUT_PERMISSION_SUBARRAY_OFFSET C))) [0..<run_count r]
      \<and> \<not> segment_used (alm_runs (a_lut_manager ?xdev')) (unat ?sid)"
    if o: "run_refs r = 1"
  proof -
    from o del run have st: "st = of_nat (run_start r)" and n: "n = of_nat (run_count r)"
      by (simp_all add: plx_alm_del_entry_def)
    from find_SomeD [OF run] wf have ok: "run_ok ?alm r"
      by (auto simp: alm_wf_def list_all_iff)
    have "unat (segments_num ?alm) < 2 ^ 32"
      using unsigned_less [of "segments_num ?alm"] by simp
    with ok have "run_count r < 2 ^ 32" by (simp add: run_ok_def)
    then have c: "unat (of_nat (run_count r) :: u32) = run_count r"
      by (rule unat_of_nat_u32)
    have ev: "events (mmio ?xdev') =
        events (mmio xdev) @ map (\<lambda>k. Write32 0 (a_lut_array_base xdev
          + (plx_get_a_lut_entry_offset C (of_nat (run_start r + k))
               + PLX_A_LUT_PERMISSION_SUBARRAY_OFFSET C))) [0..<run_count r]"
      by (simp add: events_clear_permission_foldl st n c)
    from wf have "runs_disjoint (alm_runs ?alm)" by (simp add: alm_wf_def)
    from drop_ref_frees [OF this run] o
    have "\<not> segment_used (alm_runs (a_lut_manager ?xdev')) (unat ?sid)"
      by (simp add: alm')
    with ev show ?thesis by simp
  qed
  from d many one show ?thesis by blast
qed

theorem plx_del_a_lut_entry_refcount_witness:
  "alm_wf (a_lut_manager sample_dev_busy)
   \<and> (0x1800 :: u64) < ucast (segments_num (a_lut_manager sample_dev_busy))
         * segment_size (a_lut_manager sample_dev_busy)
   \<and> find (run_contains (unat (ucast ((0x1800 :: u64)
              div segment_size (a_lut_manager sample_dev_busy)) :: u32)))
        (alm_runs (a_lut_manager sample_dev_busy))
       = Some \<lparr>run_start = 1, run_count = 2, run_addr = 0x1000, run_refs = 2\<rparr>
   \<and> (\<exists>d1 d2. plx_del_a_lut_entry sample_consts sample_dev_busy 0x1800 = Some d1
        \<and> mmio d1 = mmio sample_dev_busy
        \<and> plx_del_a_lut_entry sample_consts d1 0x1800 = Some d2
        \<and> events (mmio d2) = [Write32 0 0x38804, Write32 0 0x38808])"
proof -
  have h2: "(0x1800 :: u64) < ucast (segments_num (a_lut_manager sample_dev_busy))
         * segment_size (a_lut_manager sample_dev_busy)"
    by (simp add: sample_defs word_less_nat_alt)
  have h3: "find (run_contains (unat (ucast ((0x1800 :: u64)
              div segment_size (a_lut_manager sample_dev_busy)) :: u32)))
        (alm_runs (a_lut_manager sample_dev_busy))
       = Some \<lparr>run_start = 1, run_count = 2, run_addr = 0x1000, run_refs = 2\<rparr>"
    by (simp add: run_contains_def sample_defs)
  from plx_del_a_lut_entry_refcount [OF sample_alm_busy_wf h2 h3, of sample_consts]
  obtain d1 where
    r1: "plx_del_a_lut_entry sample_consts sample_dev_busy 0x1800 = Some d1"
    and c1: "mmio d1 = mmio sample_dev_busy"
    by auto
  have "plx_del_a_lut_entry sample_consts sample_dev_busy 0x1800 =
      Some (sample_dev_busy\<lparr>a_lut_manager := sample_alm_busy\<lparr>alm_runs :=
        [\<lparr>run_start = 1, run_count = 2, run_addr = 0x1000, run_refs = 1\<rparr>,
         \<lparr>run_start = 0, run_count = 1, run_addr = 0x7000, run_refs = 1\<rparr>]\<rparr>\<rparr>)"
    by (simp add: alm_defs facade_defs sample_defs for_u32.simps word_le_nat_alt word_less_nat_alt)
  with r1 have d1: "d1 = sample_dev_busy\<lparr>a_lut_manager := sample_alm_busy\<lparr>alm_runs :=
        [\<lparr>run_start = 1, run_count = 2, run_addr = 0x1000, run_refs = 1\<rparr>,
         \<lparr>run_start = 0, run_count = 1, run_addr = 0x7000, run_refs = 1\<rparr>]\<rparr>\<rparr>"
    by simp
  have w: "alm_wf (a_lut_manager d1)"
    by (simp add: d1) (simp add: alm_wf_def run_ok_def runs_apart_def sample_defs)
  have h2': "(0x1800 :: u64) < ucast (segments_num (a_lut_manager d1)) * segment_size (a_lut_manager d1)"
    by (simp add: d1) (simp add: sample_defs word_less_nat_alt)
  have h3': "find (run_contains (unat (ucast ((0x1800 :: u64)
              div segment_size (a_lut_manager d1)) :: u32))) (alm_runs (a_lut_manager d1))
       = Some \<lparr>run_start = 1, run_count = 2, run_addr = 0x1000, run_refs = 1\<rparr>"
    by (simp add: d1) (simp add: run_contains_def sample_defs)
  from plx_del_a_lut_entry_refcount [OF w h2' h3', of sample_consts]
  obtain d2 where
    r2: "plx_del_a_lut_entry sample_consts d1 0x1800 = Some d2"
    and e2: "events (mmio d2) =
        events (mmio d1) @ map (\<lambda>k. Write32 0 (a_lut_array_base d1
          + (plx_get_a_lut_entry_offset sample_consts (of_nat (1 + k))
               + PLX_A_LUT_PERMISSION_SUBARRAY_OFFSET sample_consts))) [0..<2]"
    by auto
  have c2: "events (mmio d2) = [Write32 0 0x38804, Write32 0 0x38808]"
    using e2 by (simp add: d1)
      (simp add: plx_get_a_lut_entry_offset_def sample_defs word_le_nat_alt upt_conv_Cons)
  have "\<exists>d1 d2. plx_del_a_lut_entry sample_consts sample_dev_busy 0x1800 = Some d1
        \<and> mmio d1 = mmio sample_dev_busy
        \<and> plx_del_a_lut_entry sample_consts d1 0x1800 = Some d2
        \<and> events (mmio d2) = [Write32 0 0x38804, Write32 0 0x38808]"
    using r1 c1 r2 c2 by blast
  with sample_alm_busy_wf h2 h3 show ?thesis by blast
qed

section \<open>The translated address\<close>

lemma pow2_mask_mod: "(addr :: u64) AND (2 ^ k - 1) = addr mod 2 ^ k"
proof -
  have "addr AND mask k = take_bit k addr"
    by (simp add: take_bit_eq_mask)
  also have "\<dots> = addr mod 2 ^ k"
    by (simp add: take_bit_eq_mod)
  finally show ?thesis by (simp add: mask_eq_decr_exp)
qed

lemma run_covers_refs [simp]: "run_covers a n (q\<lparr>run_refs := k\<rparr>) = run_covers a n q"
  by (simp add: run_covers_def)

lemma find_take_ref:
  "find P rs = Some r \<Longrightarrow> (\<And>q k. P (q\<lparr>run_refs := k\<rparr>) = P q) \<Longrightarrow>
   find P (take_ref P rs) = Some (r\<lparr>run_refs := run_refs r + 1\<rparr>)"
  by (induction rs) (auto split: if_splits)

lemma alm_add_size:
  "plx_alm_add_entry alm addr sz = (err, alm', sid, n) \<Longrightarrow>
   segment_size alm' = segment_size alm \<and> segments_num alm' = segments_num alm"
  by (auto simp: plx_alm_add_entry_def Let_def split: option.splits)

lemma alm_add_again_some:
  assumes add: "plx_alm_add_entry alm addr sz = (err, alm', sid, n)"
    and Some: "find (run_covers (addr AND NOT (segment_size alm - 1)) (segments_needed alm addr sz)) (alm_runs alm) = Some r"
  shows "alm' = alm\<lparr>alm_runs := take_ref (run_covers (addr AND NOT (segment_size alm - 1)) (segments_needed alm addr sz)) (alm_runs alm)\<rparr>
     \<and> sid = of_nat (run_start r) \<and> err = ALM_EEXIST"
  using add Some by (simp add: plx_alm_add_entry_def Let_def)

lemma alm_add_again_none:
  assumes add: "plx_alm_add_entry alm addr sz = (err, alm', sid, n)"
    and None: "find (run_covers (addr AND NOT (segment_size alm - 1)) (segments_needed alm addr sz)) (alm_runs alm) = None"
    and ok: "err \<noteq> ALM_NOSPACE"
  shows "\<exists>s. alm' = alm\<lparr>alm_runs := \<lparr>run_start = s, run_count = segments_needed alm addr sz,
              run_addr = addr AND NOT (segment_size alm - 1), run_refs = 1\<rparr> # alm_runs alm\<rparr>
     \<and> sid = of_nat s"
proof (cases "first_fit alm (segments_needed alm addr sz)")
  case None
  with add assms(2) ok show ?thesis by (simp add: plx_alm_add_entry_def Let_def)
next
  case (Some s)
  with add assms(2) show ?thesis by (auto simp: plx_alm_add_entry_def Let_def)
qed

lemma alm_add_hit:
  assumes "find (run_covers (addr AND NOT (segment_size alm - 1)) (segments_needed alm addr sz)) (alm_runs alm) = Some r"
  shows "plx_alm_add_entry alm addr sz =
     (ALM_EEXIST,
      alm\<lparr>alm_runs := take_ref (run_covers (addr AND NOT (segment_size alm - 1))
          (segments_needed alm addr sz)) (alm_runs alm)\<rparr>,
      of_nat (run_start r), of_nat (run_count r))"
  using assms by (simp add: plx_alm_add_entry_def Let_def)

lemma alm_add_again:
  assumes add: "plx_alm_add_entry alm addr sz = (err, alm', sid, n)"
    and ok: "err \<noteq> ALM_NOSPACE"
    and same: "segments_needed alm addr sz' = segments_needed alm addr sz"
  shows "\<exists>alm'' n'. plx_alm_add_entry alm' addr sz' = (ALM_EEXIST, alm'', sid, n')"
proof -
  let ?am = "addr AND NOT (segment_size alm - 1)"
  let ?P = "run_covers ?am (segments_needed alm addr sz)"
  note sz = alm_add_size [OF add]
  have need: "segments_needed alm' addr sz' = segments_needed alm addr sz"
    using same sz by (simp add: segments_needed_def)
  have "\<exists>r'. find ?P (alm_runs alm') = Some r' \<and> sid = of_nat (run_start r')"
  proof (cases "find ?P (alm_runs alm)")
    case (Some r)
    note h = alm_add_again_some [OF add Some]
    have "find ?P (take_ref ?P (alm_runs alm)) = Some (r\<lparr>run_refs := run_refs r + 1\<rparr>)"
      by (rule find_take_ref [OF Some]) simp
    with h show ?thesis by simp
  next
    case None
    from alm_add_again_none [OF add None ok] obtain s where
      alm': "alm' = alm\<lparr>alm_runs := \<lparr>run_start = s, run_count = segments_needed alm addr sz,
              run_addr = ?am, run_refs = 1\<rparr> # alm_runs alm\<rparr>"
      and sid: "sid = of_nat s"
      by blast
    show ?thesis
      by (simp add: alm' sid run_covers_def)
  qed
  then obtain r' where f: "find ?P (alm_runs alm') = Some r'" and sid: "sid = of_nat (run_start r')"
    by blast
  have f': "find (run_covers (addr AND NOT (segment_size alm' - 1)) (segments_needed alm' addr sz'))
      (alm_runs alm') = Some r'"
    using f need sz by simp
  show ?thesis
    using alm_add_hit [OF f'] sid by simp
qed

lemma plx_add_result:
  assumes add: "plx_alm_add_entry (a_lut_manager xdev) addr sz = (err, alm', sid, n)"
    and ok: "err \<noteq> ALM_NOSPACE"
  shows "snd (plx_add_a_lut_entry C xdev addr sz) =
       Inr (ucast sid * segment_size (a_lut_manager xdev)
              + (addr AND (segment_size (a_lut_manager xdev) - 1)))
     \<and> a_lut_manager (fst (plx_add_a_lut_entry C xdev addr sz)) = alm'"
proof (cases err)
  case ALM_OK
  with add alm_add_size [OF add] show ?thesis
    by (simp add: plx_add_a_lut_entry_def Let_def split: prod.splits)
next
  case ALM_EEXIST
  with add alm_add_size [OF add] show ?thesis
    by (simp add: plx_add_a_lut_entry_def Let_def)
next
  case ALM_NOSPACE
  with ok show ?thesis by simp
qed

text \<open>
  C2. Whenever \<open>plx_add_a_lut_entry\<close> succeeds, for a new run as well as for a run that
  was already mapped, the address it returns is
  \<open>segment_id * segment_size + (addr mod segment_size)\<close> in 64-bit arithmetic, where
  \<open>segment_id\<close> is what the manager returned and the segment size is a power of two.
  A second call with the same address and a length that needs as many segments returns
  the identical address.
\<close>

theorem plx_add_a_lut_entry_translation:
  assumes pow: "segment_size (a_lut_manager xdev) = 2 ^ k"
    and add: "plx_alm_add_entry (a_lut_manager xdev) addr sz = (err, alm', segment_id, n)"
    and ok: "err = ALM_OK \<or> err = ALM_EEXIST"
  shows "snd (plx_add_a_lut_entry C xdev addr sz) =
       Inr (ucast segment_id * segment_size (a_lut_manager xdev)
              + addr mod segment_size (a_lut_manager xdev))
     \<and> (\<forall>sz'. segments_needed (a_lut_manager xdev) addr sz'
                 = segments_needed (a_lut_manager xdev) addr sz \<longrightarrow>
            snd (plx_add_a_lut_entry C (fst (plx_add_a_lut_entry C xdev addr sz)) addr sz')
              = snd (plx_add_a_lut_entry C xdev addr sz))"
proof (intro conjI allI impI)
  from ok have ns: "err \<noteq> ALM_NOSPACE" by auto
  note r = plx_add_result [OF add ns, of C]
  have msk: "addr AND (segment_size (a_lut_manager xdev) - 1)
      = addr mod segment_size (a_lut_manager xdev)"
    using pow2_mask_mod [of addr k] by (simp add: pow)
  show "snd (plx_add_a_lut_entry C xdev addr sz) =
       Inr (ucast segment_id * segment_size (a_lut_manager xdev)
              + addr mod segment_size (a_lut_manager xdev))"
    using r msk by simp
  fix sz'
  assume same: "segments_needed (a_lut_manager xdev) addr sz'
      = segments_needed (a_lut_manager xdev) addr sz"
  let ?xdev' = "fst (plx_add_a_lut_entry C xdev addr sz)"
  from alm_add_again [OF add ns same] obtain alm'' n' where
    again: "plx_alm_add_entry alm' addr sz' = (ALM_EEXIST, alm'', segment_id, n')"
    by blast
  have m: "a_lut_manager ?xdev' = alm'" using r by simp
  have again': "plx_alm_add_entry (a_lut_manager ?xdev') addr sz'
      = (ALM_EEXIST, alm'', segment_id, n')"
    using again m by simp
  have ne: "ALM_EEXIST \<noteq> ALM_NOSPACE" by simp
  from plx_add_result [OF again' ne, of C]
  have "snd (plx_add_a_lut_entry C ?xdev' addr sz') =
       Inr (ucast segment_id * segment_size alm' + (addr AND (segment_size alm' - 1)))"
    by (simp add: m)
  moreover have "segment_size alm' = segment_size (a_lut_manager xdev)"
    using alm_add_size [OF add] by simp
  ultimately show "snd (plx_add_a_lut_entry C ?xdev' addr sz')
      = snd (plx_add_a_lut_entry C xdev addr sz)"
    using r by simp
qed

theorem plx_add_a_lut_entry_translation_witness:
  "segment_size (a_lut_manager sample_dev_busy) = 2 ^ 12
   \<and> plx_alm_add_entry (a_lut_manager sample_dev_busy) 0x1800 0x900 =
       (ALM_EEXIST,
        \<lparr>segment_size = 0x1000, segments_num = 4,
          alm_runs = [\<lparr>run_start = 1, run_count = 2, run_addr = 0x1000, run_refs = 3\<rparr>,
                      \<lparr>run_start = 0, run_count = 1, run_addr = 0x7000, run_refs = 1\<rparr>]\<rparr>,
        1, 2)
   \<and> snd (plx_add_a_lut_entry sample_consts sample_dev_busy 0x1800 0x900) = Inr 0x1800
   \<and> segments_needed (a_lut_manager sample_dev_busy) 0x1800 0x1000
       = segments_needed (a_lut_manager sample_dev_busy) 0x1800 0x900
   \<and> snd (plx_add_a_lut_entry sample_consts
          (fst (plx_add_a_lut_entry sample_consts sample_dev_busy 0x1800 0x900)) 0x1800 0x1000)
       = Inr 0x1800"
proof -
  have h1: "segment_size (a_lut_manager sample_dev_busy) = 2 ^ 12"
    by (simp add: sample_defs)
  have h2: "plx_alm_add_entry (a_lut_manager sample_dev_busy) 0x1800 0x900 =
       (ALM_EEXIST,
        \<lparr>segment_size = 0x1000, segments_num = 4,
          alm_runs = [\<lparr>run_start = 1, run_count = 2, run_addr = 0x1000, run_refs = 3\<rparr>,
                      \<lparr>run_start = 0, run_count = 1, run_addr = 0x7000, run_refs = 1\<rparr>]\<rparr>,
        1, 2)"
    by (simp add: alm_defs sample_defs)
  have h3: "ALM_EEXIST = ALM_OK \<or> ALM_EEXIST = ALM_EEXIST" by simp
  have s: "segments_needed (a_lut_manager sample_dev_busy) 0x1800 0x1000
       = segments_needed (a_lut_manager sample_dev_busy) 0x1800 0x900"
    by (simp add: segments_needed_def sample_defs)
  note t = plx_add_a_lut_entry_translation [OF h1 h2 h3, of sample_consts]
  have c1: "snd (plx_add_a_lut_entry sample_consts sample_dev_busy 0x1800 0x900) = Inr 0x1800"
    using t by (simp add: sample_defs)
  have c2: "snd (plx_add_a_lut_entry sample_consts
          (fst (plx_add_a_lut_entry sample_consts sample_dev_busy 0x1800 0x900)) 0x1800 0x1000)
       = Inr 0x1800"
    using t s c1 by simp
  show ?thesis using h1 h2 s c1 c2 by blast
qed

section \<open>Mapping and unmapping\<close>

lemma translated_unat:
  assumes S: "0 < unat (S :: u64)"
    and fit: "unat (N :: u32) * unat S < 2 ^ 64"
    and lt: "unat (sid :: u32) < unat N"
  shows "unat (ucast sid * S + (addr AND (S - 1))) = unat sid * unat S + unat (addr AND (S - 1))
    \<and> unat (addr AND (S - 1)) < unat S"
proof -
  let ?off = "addr AND (S - 1)"
  from S have nz: "S \<noteq> 0" by (auto simp: unat_eq_0)
  have "?off \<le> S - 1" by (rule word_and_le1)
  then have "unat ?off \<le> unat (S - 1)" by (simp add: word_le_nat_alt)
  also have "unat (S - 1) = unat S - 1" using nz by (rule unat_minus_one)
  finally have off: "unat ?off < unat S" using S by simp
  have "(unat sid + 1) * unat S \<le> unat N * unat S"
    using lt by (intro mult_le_mono1) simp
  with fit have b: "unat sid * unat S + unat S < 2 ^ 64" by (simp add: algebra_simps)
  then have m: "unat (ucast sid * S) = unat sid * unat S"
    by (simp add: unat_word_ariths unat_ucast_u32_u64)
  have "unat (ucast sid * S + ?off) = unat sid * unat S + unat ?off"
    using b off m by (simp add: unat_word_ariths)
  with off show ?thesis by simp
qed

lemma translated_segment:
  assumes S: "0 < unat (S :: u64)"
    and fit: "unat (N :: u32) * unat S < 2 ^ 64"
    and lt: "unat (sid :: u32) < unat N"
  shows "(ucast ((ucast sid * S + (addr AND (S - 1))) div S) :: u32) = sid
    \<and> ucast sid * S + (addr AND (S - 1)) < ucast N * S"
proof -
  let ?t = "ucast sid * S + (addr AND (S - 1))"
  note u = translated_unat [OF S fit lt, of addr]
  have d: "unat (?t div S) = unat sid"
    using u S by (simp add: unat_div)
  have "unat sid < 2 ^ 32" using unsigned_less [of sid] by simp
  then have "unat (ucast (?t div S) :: u32) = unat sid"
    using d by (simp add: unsigned_ucast_eq take_bit_nat_eq_self)
  then have a: "(ucast (?t div S) :: u32) = sid"
    by (simp add: word_unat_eq_iff)
  have "unat ?t < (unat sid + 1) * unat S" using u by simp
  also have "\<dots> \<le> unat N * unat S"
    using lt by (intro mult_le_mono1) simp
  finally have tn: "unat ?t < unat N * unat S" .
  have "unat (ucast N * S) = unat N * unat S"
    using fit by (simp add: unat_word_ariths unat_ucast_u32_u64)
  with tn have "?t < ucast N * S" by (simp add: word_less_nat_alt)
  with a show ?thesis by simp
qed

lemma alm_add_exists:
  assumes "plx_alm_add_entry alm addr sz = (ALM_EEXIST, alm', sid, n)"
  shows "\<exists>r. find (run_covers (addr AND NOT (segment_size alm - 1)) (segments_needed alm addr sz))
            (alm_runs alm) = Some r
     \<and> alm' = alm\<lparr>alm_runs := take_ref (run_covers (addr AND NOT (segment_size alm - 1))
            (segments_needed alm addr sz)) (alm_runs alm)\<rparr>
     \<and> sid = of_nat (run_start r)"
  using assms
  by (auto simp: plx_alm_add_entry_def Let_def split: option.splits)

lemma segments_needed_pos:
  assumes "0 < sz" and "0 < unat (segment_size alm)"
  shows "0 < segments_needed alm addr sz"
proof -
  from assms(1) have "1 \<le> unat sz" by (simp add: word_less_nat_alt)
  then have "unat (segment_size alm)
      \<le> unat (addr - (addr AND NOT (segment_size alm - 1))) + unat sz + unat (segment_size alm) - 1"
    by simp
  with assms(2) show ?thesis
    by (simp add: segments_needed_def Let_def div_greater_zero_iff)
qed

lemma drop_take_ref:
  assumes "runs_disjoint rs"
    and "\<forall>q \<in> set rs. 0 < run_count q \<and> 0 < run_refs q"
    and "find P rs = Some r"
    and "\<And>q k. P (q\<lparr>run_refs := k\<rparr>) = P q"
  shows "drop_ref (run_contains (run_start r)) (take_ref P rs) = rs
    \<and> find (run_contains (run_start r)) (take_ref P rs) \<noteq> None"
  using assms
proof (induction rs)
  case Nil
  then show ?case by simp
next
  case (Cons a rs)
  show ?case
  proof (cases "P a")
    case True
    with Cons.prems have ar: "a = r" by simp
    have "run_contains (run_start a) a"
      using Cons.prems(2) by (simp add: run_contains_def)
    with True ar Cons.prems(2) show ?thesis by simp
  next
    case False
    with Cons.prems have f: "find P rs = Some r" by simp
    then have rin: "r \<in> set rs" by (auto simp: find_Some_iff)
    with Cons.prems have "runs_apart a r" "0 < run_count r"
      by (auto simp: list_all_iff)
    then have na: "\<not> run_contains (run_start r) a"
      by (auto simp: runs_apart_def run_contains_def)
    have "drop_ref (run_contains (run_start r)) (take_ref P rs) = rs
        \<and> find (run_contains (run_start r)) (take_ref P rs) \<noteq> None"
      using Cons.prems f by (intro Cons.IH) auto
    with False na show ?thesis by simp
  qed
qed

lemma alm_roundtrip:
  assumes wf: "alm_wf alm"
    and pos: "0 < sz"
    and add: "plx_alm_add_entry alm addr sz = (err, alm', sid, n)"
    and ok: "err \<noteq> ALM_NOSPACE"
  shows "unat sid < unat (segments_num alm) \<and> (\<exists>st k. plx_alm_del_entry alm' sid = (alm, st, k))"
proof (cases err)
  case ALM_NOSPACE
  with ok show ?thesis by simp
next
  case ALM_OK
  let ?need = "segments_needed alm addr sz"
  from alm_add_ok [OF add [unfolded ALM_OK]] obtain s where
    ff: "first_fit alm ?need = Some s" and sid: "sid = of_nat s"
    and alm': "alm' = alm\<lparr>alm_runs := \<lparr>run_start = s, run_count = ?need,
            run_addr = addr AND NOT (segment_size alm - 1), run_refs = 1\<rparr> # alm_runs alm\<rparr>"
    by blast
  have np: "0 < ?need"
    using pos wf by (intro segments_needed_pos) (simp_all add: alm_wf_def)
  from first_fit_SomeD [OF ff] np have sN: "s < unat (segments_num alm)" by simp
  moreover have "unat (segments_num alm) < 2 ^ 32"
    using unsigned_less [of "segments_num alm"] by simp
  ultimately have us: "unat sid = s" by (simp add: sid unat_of_nat_u32)
  have "plx_alm_del_entry alm' sid = (alm, of_nat s, of_nat ?need)"
    using np by (simp add: plx_alm_del_entry_def us alm' run_contains_def)
  with sN us show ?thesis by simp
next
  case ALM_EEXIST
  let ?P = "run_covers (addr AND NOT (segment_size alm - 1)) (segments_needed alm addr sz)"
  from alm_add_exists [OF add [unfolded ALM_EEXIST]] obtain r where
    f: "find ?P (alm_runs alm) = Some r"
    and alm': "alm' = alm\<lparr>alm_runs := take_ref ?P (alm_runs alm)\<rparr>"
    and sid: "sid = of_nat (run_start r)"
    by blast
  from find_SomeD [OF f] wf have rok: "run_ok alm r"
    by (auto simp: alm_wf_def list_all_iff)
  then have sN: "run_start r < unat (segments_num alm)" by (simp add: run_ok_def)
  moreover have "unat (segments_num alm) < 2 ^ 32"
    using unsigned_less [of "segments_num alm"] by simp
  ultimately have us: "unat sid = run_start r" by (simp add: sid unat_of_nat_u32)
  have dj: "runs_disjoint (alm_runs alm)" using wf by (simp add: alm_wf_def)
  have ne: "\<forall>q \<in> set (alm_runs alm). 0 < run_count q \<and> 0 < run_refs q"
    using wf by (auto simp: alm_wf_def list_all_iff run_ok_def)
  have dt: "drop_ref (run_contains (run_start r)) (take_ref ?P (alm_runs alm)) = alm_runs alm
      \<and> find (run_contains (run_start r)) (take_ref ?P (alm_runs alm)) \<noteq> None"
    by (rule drop_take_ref [OF dj ne f]) simp
  then obtain q where q: "find (run_contains (run_start r)) (take_ref ?P (alm_runs alm)) = Some q"
    by auto
  have "fst (plx_alm_del_entry alm' sid) = alm"
    using dt q by (simp add: plx_alm_del_entry_def us alm')
  then have "\<exists>st k. plx_alm_del_entry alm' sid = (alm, st, k)"
    by (cases "plx_alm_del_entry alm' sid") auto
  with sN us show ?thesis by simp
qed

lemma plx_del_manager:
  assumes "addr < ucast (segments_num (a_lut_manager xdev)) * segment_size (a_lut_manager xdev)"
    and "plx_alm_del_entry (a_lut_manager xdev)
           (ucast (addr div segment_size (a_lut_manager xdev))) = (alm', st, k)"
    and "segment_size (a_lut_manager xdev) \<noteq> 0"
  shows "\<exists>xdev'. plx_del_a_lut_entry C xdev addr = Some xdev' \<and> a_lut_manager xdev' = alm'"
proof -
  from assms(1)
  have "\<not> ucast (segments_num (a_lut_manager xdev)) * segment_size (a_lut_manager xdev) \<le> addr"
    by simp
  with assms(2,3) show ?thesis
    by (simp add: plx_del_a_lut_entry_def Let_def)
qed

text \<open>
  C1. For a manager that satisfies its invariant and a request of positive length: when
  \<open>plx_add_a_lut_entry\<close> succeeds and returns the translated address \<open>t\<close>, calling
  \<open>plx_del_a_lut_entry\<close> on \<open>t\<close> immediately afterwards returns and leaves the segment
  manager exactly as it was before the mapping (the same runs with the same reference
  counts).
\<close>

theorem map_unmap_roundtrip:
  assumes wf: "alm_wf (a_lut_manager xdev)"
    and pos: "0 < sz"
    and map: "plx_add_a_lut_entry C xdev addr sz = (xdev', Inr t)"
  shows "\<exists>xdev''. plx_del_a_lut_entry C xdev' t = Some xdev''
     \<and> a_lut_manager xdev'' = a_lut_manager xdev"
proof -
  let ?alm = "a_lut_manager xdev"
  obtain err alm' sid n where add: "plx_alm_add_entry ?alm addr sz = (err, alm', sid, n)"
    by (cases "plx_alm_add_entry ?alm addr sz") auto
  have ok: "err \<noteq> ALM_NOSPACE"
  proof
    assume "err = ALM_NOSPACE"
    with add have "snd (plx_add_a_lut_entry C xdev addr sz) = Inl ENOMEM"
      by (simp add: plx_add_a_lut_entry_def Let_def)
    with map show False by simp
  qed
  from plx_add_result [OF add ok, of C] map
  have t: "t = ucast sid * segment_size ?alm + (addr AND (segment_size ?alm - 1))"
    and m: "a_lut_manager xdev' = alm'"
    by simp_all
  note sz' = alm_add_size [OF add]
  from alm_roundtrip [OF wf pos add ok] obtain st k where
    lt: "unat sid < unat (segments_num ?alm)" and del: "plx_alm_del_entry alm' sid = (?alm, st, k)"
    by blast
  from wf have S: "0 < unat (segment_size ?alm)"
    and fit: "unat (segments_num ?alm) * unat (segment_size ?alm) < 2 ^ 64"
    by (simp_all add: alm_wf_def)
  note seg = translated_segment [OF S fit lt, of addr]
  have inr: "t < ucast (segments_num (a_lut_manager xdev')) * segment_size (a_lut_manager xdev')"
    using seg sz' by (simp add: t m)
  have del': "plx_alm_del_entry (a_lut_manager xdev')
      (ucast (t div segment_size (a_lut_manager xdev'))) = (?alm, st, k)"
    using seg sz' del by (simp add: t m)
  have nz: "segment_size (a_lut_manager xdev') \<noteq> 0"
    using S sz' by (auto simp: m)
  show ?thesis
    by (rule plx_del_manager [OF inr del' nz])
qed

theorem map_unmap_roundtrip_witness:
  "alm_wf (a_lut_manager sample_dev_busy)
   \<and> (0 :: u64) < 0x100
   \<and> plx_add_a_lut_entry sample_consts sample_dev_busy 0x123453F00 0x100 =
       (fst (plx_add_a_lut_entry sample_consts sample_dev_busy 0x123453F00 0x100), Inr 0x3F00)
   \<and> (\<exists>xdev''. plx_del_a_lut_entry sample_consts
          (fst (plx_add_a_lut_entry sample_consts sample_dev_busy 0x123453F00 0x100)) 0x3F00
            = Some xdev''
        \<and> a_lut_manager xdev'' = a_lut_manager sample_dev_busy)"
proof -
  have h2: "(0 :: u64) < 0x100" by simp
  have r: "snd (plx_add_a_lut_entry sample_consts sample_dev_busy 0x123453F00 0x100) = Inr 0x3F00"
    by (simp add: alm_defs plx_add_a_lut_entry_def sample_defs upt_conv_Cons Let_def
        split: prod.splits)
  have h3: "plx_add_a_lut_entry sample_consts sample_dev_busy 0x123453F00 0x100 =
       (fst (plx_add_a_lut_entry sample_consts sample_dev_busy 0x123453F00 0x100), Inr 0x3F00)"
    using r by (simp add: prod_eq_iff)
  show ?thesis
    using sample_alm_busy_wf h2 h3 map_unmap_roundtrip [OF sample_alm_busy_wf h2 h3] by blast
qed

section \<open>The grace period of the card reset\<close>

lemma uint_less_of_unat: "unat (w :: 'a::len word) < n \<Longrightarrow> uint w < int n"
  by (simp only: uint_nat of_nat_less_iff)

lemma uint_ge_of_unat: "n \<le> unat (w :: 'a::len word) \<Longrightarrow> int n \<le> uint w"
  by (simp only: uint_nat of_nat_le_iff)

lemma sint_nonneg_u64: "unat (w :: u64) < 2 ^ 63 \<Longrightarrow> 0 \<le> sint w"
proof -
  assume "unat w < 2 ^ 63"
  from uint_less_of_unat [OF this] have "uint w < 2 ^ 63"
    by (simp only: of_nat_power of_nat_numeral)
  moreover have nn: "0 \<le> uint w" by simp
  ultimately have "signed_take_bit 63 (uint w) = uint w"
    by (intro signed_take_bit_int_eq_self) linarith+
  moreover have "sint w = signed_take_bit 63 (uint w)"
    by (simp add: sint_uint)
  ultimately show ?thesis using nn by linarith
qed

lemma sint_neg_u64: "2 ^ 63 \<le> unat (w :: u64) \<Longrightarrow> sint w < 0"
proof -
  assume "2 ^ 63 \<le> unat w"
  from uint_ge_of_unat [OF this] have ge: "2 ^ 63 \<le> uint w"
    by (simp only: of_nat_power of_nat_numeral)
  have lt: "uint w < 2 ^ 64" using uint_lt2p [of w] by simp
  have "signed_take_bit 63 (uint w) \<le> uint w - 2 ^ Suc 63"
    using ge by (intro signed_take_bit_int_less_eq) simp
  moreover have "sint w = signed_take_bit 63 (uint w)"
    by (simp add: sint_uint)
  moreover have "(2 :: int) ^ Suc 63 = 2 ^ 64" by simp
  ultimately show ?thesis using lt by linarith
qed

lemma in_grace_window:
  assumes g: "unat (G :: u64) < 2 ^ 63" and d: "d < G"
  shows "time_after_eq64 (ts + d) ts \<and> time_before64 (ts + d) (ts + G)"
proof -
  from d have dG: "unat d < unat G" by (simp add: word_less_nat_alt)
  from dG g have "unat d < 2 ^ 63" by (rule less_trans)
  then have a: "0 \<le> sint d" by (rule sint_nonneg_u64)
  have "unat (d - G) = unat d + 2 ^ 64 - unat G"
    using dG by (simp add: unat_sub_if_size word_size)
  moreover have "(2 :: nat) ^ 64 = 2 ^ 63 + 2 ^ 63" by simp
  ultimately have "2 ^ 63 \<le> unat (d - G)"
    using g dG by linarith
  then have b: "sint (d - G) < 0" by (rule sint_neg_u64)
  have "ts + d - ts = d" "ts + d - (ts + G) = d - G" by simp_all
  with a b show ?thesis by (simp add: time_after_eq64_def time_before64_def)
qed

lemma plx_card_reset_rejects:
  assumes node: "ctx (card_id xdev, cpu_id) = Some ts"
    and g: "unat (RESET_GRACE_PERIOD_JIFFIES C) < 2 ^ 63"
    and d: "d < RESET_GRACE_PERIOD_JIFFIES C"
  shows "plx_card_reset C ctx xdev cpu_id (ts + d) now1 now2 = (ctx, xdev)"
  using node in_grace_window [OF g d, of ts]
  by (simp add: plx_card_reset_def)

lemma events_signal_bit:
  "events (signal_bit m bit' offset ms) =
     events m @ [Read32 offset, Write32 (regs m offset AND NOT bit') offset, Wait ms,
                 Read32 offset, Write32 ((regs m offset AND NOT bit') OR bit') offset]"
  by (simp add: signal_bit_def plx_mmio_read_def plx_mmio_write_def barrier_def Let_def)

lemma plx_card_reset_accepts:
  assumes node: "ctx (card_id xdev, cpu_id) = Some ts"
    and lo: "0 \<le> cpu_id" and hi: "cpu_id < uint (plx_get_cpu_num C xdev)"
    and out: "\<not> (time_after_eq64 now0 ts
                \<and> time_before64 now0 (ts + RESET_GRACE_PERIOD_JIFFIES C))"
    and res: "plx_card_reset C ctx xdev cpu_id now0 now1 now2 = (ctx', xdev')"
  shows "ctx' = ctx((card_id xdev, cpu_id) \<mapsto> now2)
     \<and> card_id xdev' = card_id xdev \<and> card_type xdev' = card_type xdev
     \<and> events (mmio xdev') = events (mmio xdev) @
          (let bit' = (plx_reset_bits C ! (if card_type xdev AND VCA_VV C \<noteq> 0 then 0 else 1))
                         ! nat cpu_id;
               data = regs (mmio xdev) GPIO_REG
           in [LbpResetStart (card_id xdev) cpu_id,
               Read32 GPIO_REG, Write32 (data AND NOT bit') GPIO_REG, Wait RESET_PULSE_TIME,
               Read32 GPIO_REG, Write32 ((data AND NOT bit') OR bit') GPIO_REG,
               Wait 100, LbpResetStop (card_id xdev) cpu_id])"
proof -
  from lo hi have pos: "0 < uint (plx_get_cpu_num C xdev)" by simp
  then have known: "card_type xdev AND VCA_VV C \<noteq> 0 \<or> card_type xdev AND VCA_MV C \<noteq> 0"
    by (auto simp: plx_get_cpu_num_def split: if_splits)
  show ?thesis
  proof (cases "card_type xdev AND VCA_VV C \<noteq> 0")
    case True
    with node lo hi out res show ?thesis
      by (auto simp: plx_card_reset_def Let_def events_signal_bit barrier_def)
  next
    case False
    with known have "card_type xdev AND VCA_MV C \<noteq> 0" by simp
    with False node lo hi out res show ?thesis
      by (auto simp: plx_card_reset_def Let_def events_signal_bit barrier_def)
  qed
qed

text \<open>
  C9. Let the node of the CPU have the reset timestamp \<open>ts\<close>, and let the grace period be
  shorter than \<open>2 ^ 63\<close> jiffies. A reset requested less than the grace period after
  \<open>ts\<close> changes nothing: no event is issued, so no pulse is driven on the GPIO register,
  and the timestamp stays. A reset of a valid CPU requested outside that window drives
  the pulse on the GPIO register and leaves as timestamp the time read after the pulse;
  every request less than the grace period after that timestamp is rejected in turn.
\<close>

theorem plx_card_reset_grace_period:
  assumes node: "ctx (card_id xdev, cpu_id) = Some ts"
    and g: "unat (RESET_GRACE_PERIOD_JIFFIES C) < 2 ^ 63"
  shows "(\<forall>d now1 now2. d < RESET_GRACE_PERIOD_JIFFIES C \<longrightarrow>
            plx_card_reset C ctx xdev cpu_id (ts + d) now1 now2 = (ctx, xdev))
   \<and> (\<forall>now0 now1 now2 ctx' xdev'.
          0 \<le> cpu_id \<and> cpu_id < uint (plx_get_cpu_num C xdev)
          \<and> \<not> (time_after_eq64 now0 ts
                 \<and> time_before64 now0 (ts + RESET_GRACE_PERIOD_JIFFIES C))
          \<and> plx_card_reset C ctx xdev cpu_id now0 now1 now2 = (ctx', xdev') \<longrightarrow>
            ctx' (card_id xdev, cpu_id) = Some now2
          \<and> events (mmio xdev') = events (mmio xdev) @
               (let bit' = (plx_reset_bits C ! (if card_type xdev AND VCA_VV C \<noteq> 0 then 0 else 1))
                              ! nat cpu_id;
                    data = regs (mmio xdev) GPIO_REG
                in [LbpResetStart (card_id xdev) cpu_id,
                    Read32 GPIO_REG, Write32 (data AND NOT bit') GPIO_REG, Wait RESET_PULSE_TIME,
                    Read32 GPIO_REG, Write32 ((data AND NOT bit') OR bit') GPIO_REG,
                    Wait 100, LbpResetStop (card_id xdev) cpu_id])
          \<and> (\<forall>d n1 n2. d < RESET_GRACE_PERIOD_JIFFIES C \<longrightarrow>
                 plx_card_reset C ctx' xdev' cpu_id (now2 + d) n1 n2 = (ctx', xdev')))"
proof (intro conjI allI impI)
  fix d now1 now2
  assume "d < RESET_GRACE_PERIOD_JIFFIES C"
  then show "plx_card_reset C ctx xdev cpu_id (ts + d) now1 now2 = (ctx, xdev)"
    by (rule plx_card_reset_rejects
        [where ctx = ctx and xdev = xdev and cpu_id = cpu_id, OF node g])
next
  fix now0 now1 now2 ctx' xdev'
  assume a: "0 \<le> cpu_id \<and> cpu_id < uint (plx_get_cpu_num C xdev)
          \<and> \<not> (time_after_eq64 now0 ts
                 \<and> time_before64 now0 (ts + RESET_GRACE_PERIOD_JIFFIES C))
          \<and> plx_card_reset C ctx xdev cpu_id now0 now1 now2 = (ctx', xdev')"
  then have lo: "0 \<le> cpu_id" and hi: "cpu_id < uint (plx_get_cpu_num C xdev)"
    and out: "\<not> (time_after_eq64 now0 ts
                 \<and> time_before64 now0 (ts + RESET_GRACE_PERIOD_JIFFIES C))"
    and res: "plx_card_reset C ctx xdev cpu_id now0 now1 now2 = (ctx', xdev')"
    by blast+
  note acc = plx_card_reset_accepts [OF node lo hi out res]
  from acc show "ctx' (card_id xdev, cpu_id) = Some now2" by simp
  from acc show "events (mmio xdev') = events (mmio xdev) @
               (let bit' = (plx_reset_bits C ! (if card_type xdev AND VCA_VV C \<noteq> 0 then 0 else 1))
                              ! nat cpu_id;
                    data = regs (mmio xdev) GPIO_REG
                in [LbpResetStart (card_id xdev) cpu_id,
                    Read32 GPIO_REG, Write32 (data AND NOT bit') GPIO_REG, Wait RESET_PULSE_TIME,
                    Read32 GPIO_REG, Write32 ((data AND NOT bit') OR bit') GPIO_REG,
                    Wait 100, LbpResetStop (card_id xdev) cpu_id])"
    by blast
  fix d n1 n2
  assume d: "d < RESET_GRACE_PERIOD_JIFFIES C"
  from acc have node': "ctx' (card_id xdev', cpu_id) = Some now2" by simp
  show "plx_card_reset C ctx' xdev' cpu_id (now2 + d) n1 n2 = (ctx', xdev')"
    by (rule plx_card_reset_rejects
        [where ctx = ctx' and xdev = xdev' and cpu_id = cpu_id, OF node' g d])
qed

theorem plx_card_reset_grace_period_witness:
  "(\<lambda>_. Some 5) (card_id sample_dev, 1 :: int) = Some (5 :: u64)
   \<and> unat (RESET_GRACE_PERIOD_JIFFIES sample_consts) < 2 ^ 63
   \<and> (200 :: u64) < RESET_GRACE_PERIOD_JIFFIES sample_consts
   \<and> plx_card_reset sample_consts (\<lambda>_. Some 5) sample_dev 1 (5 + 200) 206 230
       = (\<lambda>_. Some 5, sample_dev)
   \<and> (0 :: int) \<le> 1 \<and> 1 < uint (plx_get_cpu_num sample_consts sample_dev)
   \<and> \<not> (time_after_eq64 2000 5
          \<and> time_before64 2000 (5 + RESET_GRACE_PERIOD_JIFFIES sample_consts))
   \<and> fst (plx_card_reset sample_consts (\<lambda>_. Some 5) sample_dev 1 2000 2001 2030)
        (card_id sample_dev, 1) = Some 2030
   \<and> events (mmio (snd (plx_card_reset sample_consts (\<lambda>_. Some 5) sample_dev 1 2000 2001 2030)))
       = [LbpResetStart 0 1, Read32 0x624, Write32 0 0x624, Wait 24,
          Read32 0x624, Write32 0x200 0x624, Wait 100, LbpResetStop 0 1]
   \<and> plx_card_reset sample_consts
        (fst (plx_card_reset sample_consts (\<lambda>_. Some 5) sample_dev 1 2000 2001 2030))
        (snd (plx_card_reset sample_consts (\<lambda>_. Some 5) sample_dev 1 2000 2001 2030))
        1 (2030 + 200) 2231 2260
       = plx_card_reset sample_consts (\<lambda>_. Some 5) sample_dev 1 2000 2001 2030"
proof -
  let ?ctx = "(\<lambda>_. Some 5) :: plx_contexts"
  let ?r = "plx_card_reset sample_consts ?ctx sample_dev 1 2000 2001 2030"
  have h1: "?ctx (card_id sample_dev, 1 :: int) = Some (5 :: u64)" by simp
  have h2: "unat (RESET_GRACE_PERIOD_JIFFIES sample_consts) < 2 ^ 63"
    by (simp add: sample_consts_def)
  have h3: "(200 :: u64) < RESET_GRACE_PERIOD_JIFFIES sample_consts"
    by (simp add: sample_consts_def word_less_nat_alt)
  have h4: "(0 :: int) \<le> 1 \<and> 1 < uint (plx_get_cpu_num sample_consts sample_dev)"
    by (simp add: plx_get_cpu_num_def sample_defs)
  have h5: "\<not> (time_after_eq64 2000 5
          \<and> time_before64 2000 (5 + RESET_GRACE_PERIOD_JIFFIES sample_consts))"
    by (simp add: time_before64_def sample_consts_def)
  have h6: "?r = (fst ?r, snd ?r)" by simp
  note t = plx_card_reset_grace_period [OF h1 h2]
  from t h3 have c1: "plx_card_reset sample_consts ?ctx sample_dev 1 (5 + 200) 206 230
       = (?ctx, sample_dev)"
    by blast
  from t h4 h5 h6 have c2: "fst ?r (card_id sample_dev, 1) = Some 2030"
    by blast
  from t h4 h5 h6 have "events (mmio (snd ?r)) = events (mmio sample_dev) @
       (let bit' = (plx_reset_bits sample_consts
                      ! (if card_type sample_dev AND VCA_VV sample_consts \<noteq> 0 then 0 else 1))
                      ! nat 1;
            data = regs (mmio sample_dev) GPIO_REG
        in [LbpResetStart (card_id sample_dev) 1,
            Read32 GPIO_REG, Write32 (data AND NOT bit') GPIO_REG, Wait RESET_PULSE_TIME,
            Read32 GPIO_REG, Write32 ((data AND NOT bit') OR bit') GPIO_REG,
            Wait 100, LbpResetStop (card_id sample_dev) 1])"
    by blast
  then have c3: "events (mmio (snd ?r))
       = [LbpResetStart 0 1, Read32 0x624, Write32 0 0x624, Wait 24,
          Read32 0x624, Write32 0x200 0x624, Wait 100, LbpResetStop 0 1]"
    by (simp add: plx_reset_bits_def GPIO_REG_def RESET_PULSE_TIME_def MARGIN_TIME_def
        sample_defs Let_def)
  from t h4 h5 h6 have "\<forall>d n1 n2. d < RESET_GRACE_PERIOD_JIFFIES sample_consts \<longrightarrow>
      plx_card_reset sample_consts (fst ?r) (snd ?r) 1 (2030 + d) n1 n2 = (fst ?r, snd ?r)"
    by blast
  with h3 have "plx_card_reset sample_consts (fst ?r) (snd ?r) 1 (2030 + 200) 2231 2260
      = (fst ?r, snd ?r)"
    by blast
  with h6 have c4: "plx_card_reset sample_consts (fst ?r) (snd ?r) 1 (2030 + 200) 2231 2260 = ?r"
    by (simp only:)
  show ?thesis using h1 h2 h3 c1 h4 h5 c2 c3 c4 by blast
qed

section \<open>The invariant of the manager is kept\<close>

text \<open>
  The invariant that the theorems on mapping and unmapping assume holds for a manager
  without allocations and is kept by every operation of the facade, so it holds in every
  state the driver reaches from its initialisation.
\<close>

lemma runs_apart_refs [simp]:
  "runs_apart (r\<lparr>run_refs := k\<rparr>) q = runs_apart r q"
  "runs_apart q (r\<lparr>run_refs := k\<rparr>) = runs_apart q r"
  by (simp_all add: runs_apart_def)

lemma runs_apart_refs_fun [simp]: "runs_apart (r\<lparr>run_refs := k\<rparr>) = runs_apart r"
  by (rule ext) simp

lemma take_ref_apart:
  "list_all (runs_apart a) rs \<Longrightarrow> list_all (runs_apart a) (take_ref P rs)"
  by (induction rs) simp_all

lemma take_ref_disjoint: "runs_disjoint rs \<Longrightarrow> runs_disjoint (take_ref P rs)"
  by (induction rs) (simp_all add: take_ref_apart)

lemma take_ref_ok: "list_all (run_ok alm) rs \<Longrightarrow> list_all (run_ok alm) (take_ref P rs)"
  by (induction rs) (simp_all add: run_ok_def)

lemma drop_ref_apart:
  "list_all (runs_apart a) rs \<Longrightarrow> list_all (runs_apart a) (drop_ref P rs)"
  by (induction rs) simp_all

lemma drop_ref_disjoint: "runs_disjoint rs \<Longrightarrow> runs_disjoint (drop_ref P rs)"
  by (induction rs) (simp_all add: drop_ref_apart)

lemma drop_ref_ok: "list_all (run_ok alm) rs \<Longrightarrow> list_all (run_ok alm) (drop_ref P rs)"
  by (induction rs) (simp_all add: run_ok_def)

lemma range_free_apart:
  assumes free: "range_free rs s n" and q: "q \<in> set rs" and qn: "0 < run_count q" and n: "0 < n"
  shows "runs_apart \<lparr>run_start = s, run_count = n, run_addr = a, run_refs = k\<rparr> q"
proof (rule ccontr)
  assume "\<not> runs_apart \<lparr>run_start = s, run_count = n, run_addr = a, run_refs = k\<rparr> q"
  then have ov: "run_start q < s + n" "s < run_start q + run_count q"
    by (simp_all add: runs_apart_def)
  let ?i = "max s (run_start q)"
  have "?i \<in> set [s..<s + n]" using ov n by auto
  with free have "\<not> segment_used rs ?i"
    by (simp add: range_free_def list_all_iff)
  moreover have "run_contains ?i q" using ov qn by (auto simp: run_contains_def)
  ultimately show False using q by (auto simp: segment_used_def list_ex_iff)
qed

lemma run_ok_runs [simp]: "run_ok (alm\<lparr>alm_runs := rs\<rparr>) = run_ok alm"
  by (rule ext) (simp add: run_ok_def)

lemma alm_wf_add:
  assumes wf: "alm_wf alm" and pos: "0 < sz"
    and add: "plx_alm_add_entry alm addr sz = (err, alm', sid, n)"
  shows "alm_wf alm'"
proof (cases err)
  case ALM_NOSPACE
  with add have "alm' = alm"
    by (auto simp: plx_alm_add_entry_def Let_def split: option.splits)
  with wf show ?thesis by simp
next
  case ALM_EEXIST
  from alm_add_exists [OF add [unfolded ALM_EEXIST]] obtain r where
    alm': "alm' = alm\<lparr>alm_runs := take_ref (run_covers (addr AND NOT (segment_size alm - 1))
            (segments_needed alm addr sz)) (alm_runs alm)\<rparr>"
    by blast
  from wf show ?thesis
    by (simp add: alm_wf_def alm' take_ref_ok take_ref_disjoint)
next
  case ALM_OK
  let ?need = "segments_needed alm addr sz"
  from alm_add_ok [OF add [unfolded ALM_OK]] obtain s where
    ff: "first_fit alm ?need = Some s"
    and alm': "alm' = alm\<lparr>alm_runs := \<lparr>run_start = s, run_count = ?need,
            run_addr = addr AND NOT (segment_size alm - 1), run_refs = 1\<rparr> # alm_runs alm\<rparr>"
    by blast
  have np: "0 < ?need"
    using pos wf by (intro segments_needed_pos) (simp_all add: alm_wf_def)
  note f = first_fit_SomeD [OF ff]
  have "\<forall>q \<in> set (alm_runs alm). runs_apart \<lparr>run_start = s, run_count = ?need,
            run_addr = addr AND NOT (segment_size alm - 1), run_refs = 1\<rparr> q"
  proof
    fix q assume q: "q \<in> set (alm_runs alm)"
    with wf have "0 < run_count q" by (auto simp: alm_wf_def list_all_iff run_ok_def)
    with f q np show "runs_apart \<lparr>run_start = s, run_count = ?need,
            run_addr = addr AND NOT (segment_size alm - 1), run_refs = 1\<rparr> q"
      by (intro range_free_apart) auto
  qed
  then have ap: "list_all (runs_apart \<lparr>run_start = s, run_count = ?need,
            run_addr = addr AND NOT (segment_size alm - 1), run_refs = 1\<rparr>) (alm_runs alm)"
    by (simp add: list_all_iff)
  have new: "run_ok alm \<lparr>run_start = s, run_count = ?need,
            run_addr = addr AND NOT (segment_size alm - 1), run_refs = 1\<rparr>"
    using f np by (simp add: run_ok_def)
  show ?thesis
    using wf ap new by (simp add: alm_wf_def alm')
qed

lemma alm_wf_del:
  assumes wf: "alm_wf alm" and del: "plx_alm_del_entry alm sid = (alm', st, k)"
  shows "alm_wf alm'"
proof (cases "find (run_contains (unat sid)) (alm_runs alm)")
  case None
  with del have "alm' = alm" by (simp add: plx_alm_del_entry_def)
  with wf show ?thesis by simp
next
  case (Some r)
  with del have alm': "alm' = alm\<lparr>alm_runs := drop_ref (run_contains (unat sid)) (alm_runs alm)\<rparr>"
    by (simp add: plx_alm_del_entry_def)
  from wf show ?thesis
    by (simp add: alm_wf_def alm' drop_ref_ok drop_ref_disjoint)
qed

lemma alm_wf_reset: "alm_wf alm \<Longrightarrow> alm_wf (plx_alm_reset alm)"
  by (simp add: alm_wf_def plx_alm_reset_def)

lemma alm_wf_facade:
  assumes wf: "alm_wf (a_lut_manager xdev)"
  shows "0 < sz \<Longrightarrow> alm_wf (a_lut_manager (fst (plx_add_a_lut_entry C xdev addr sz)))"
    and "plx_del_a_lut_entry C xdev t = Some xdev' \<Longrightarrow> alm_wf (a_lut_manager xdev')"
    and "alm_wf (a_lut_manager (plx_a_lut_clear C xdev offset))"
proof -
  obtain err alm' sid n where
    add: "plx_alm_add_entry (a_lut_manager xdev) addr sz = (err, alm', sid, n)"
    by (cases "plx_alm_add_entry (a_lut_manager xdev) addr sz") auto
  have m: "a_lut_manager (fst (plx_add_a_lut_entry C xdev addr sz)) = alm'"
    using add by (simp add: plx_add_a_lut_entry_def Let_def split: prod.splits)
  show "0 < sz \<Longrightarrow> alm_wf (a_lut_manager (fst (plx_add_a_lut_entry C xdev addr sz)))"
    using alm_wf_add [OF wf _ add] by (simp add: m)
  obtain alm'' st k where
    del: "plx_alm_del_entry (a_lut_manager xdev)
        (ucast (t div segment_size (a_lut_manager xdev))) = (alm'', st, k)"
    by (cases "plx_alm_del_entry (a_lut_manager xdev)
        (ucast (t div segment_size (a_lut_manager xdev)))") auto
  show "alm_wf (a_lut_manager xdev')" if "plx_del_a_lut_entry C xdev t = Some xdev'"
  proof -
    from that del have "a_lut_manager xdev' = a_lut_manager xdev \<or> a_lut_manager xdev' = alm''"
      by (auto simp: plx_del_a_lut_entry_def Let_def split: if_splits)
    with wf alm_wf_del [OF wf del] show ?thesis by auto
  qed
  show "alm_wf (a_lut_manager (plx_a_lut_clear C xdev offset))"
    using alm_wf_reset [OF wf] by (simp add: plx_a_lut_clear_def Let_def)
qed

lemma alm_wf_empty:
  "0 < unat (segment_size alm) \<Longrightarrow>
   unat (segments_num alm) * unat (segment_size alm) < 2 ^ 64 \<Longrightarrow>
   alm_wf (alm\<lparr>alm_runs := []\<rparr>)"
  by (simp add: alm_wf_def)

end
